(* ===== verification/Prelude.thy ===== *)
theory Prelude imports Main begin

text \<open>
  What every component shares: the outcome of a computation of the crate, the combinators that
  thread a state through it, the names of the byte and string types, and the collections of
  rewrite rules.

  A Rust computation of type \<open>Result<T>\<close> can do five things here. It returns \<open>Ok\<close> or \<open>Err\<close>; it
  panics (or the allocator aborts it); its future is never completed by the environment
  (\<open>Pending\<close>: the peer stays silent and no timeout is armed, or no permit is ever released); or it
  spins in a loop of its own (\<open>Hang\<close>). The last three are values too, so that a theorem that says a
  call returns has to exclude them.
\<close>

section \<open>Outcomes\<close>

datatype ('e, 'a) outcome = Ok 'a | Err 'e | Panic | Pending | Hang

text \<open>The operator \<open>?\<close> on a value, and on a computation that also carries a state.\<close>

fun bind_outcome :: "('e, 'a) outcome \<Rightarrow> ('a \<Rightarrow> ('e, 'b) outcome) \<Rightarrow> ('e, 'b) outcome" where
  "bind_outcome (Ok a) k = k a"
| "bind_outcome (Err e) k = Err e"
| "bind_outcome Panic k = Panic"
| "bind_outcome Pending k = Pending"
| "bind_outcome Hang k = Hang"

fun and_then ::
  "('e, 'a) outcome \<times> 's \<Rightarrow> ('a \<Rightarrow> 's \<Rightarrow> ('e, 'b) outcome \<times> 's) \<Rightarrow> ('e, 'b) outcome \<times> 's" where
  "and_then (Ok a, s) k = k a s"
| "and_then (Err e, s) k = (Err e, s)"
| "and_then (Panic, s) k = (Panic, s)"
| "and_then (Pending, s) k = (Pending, s)"
| "and_then (Hang, s) k = (Hang, s)"

fun map_ok :: "('a \<Rightarrow> 'b) \<Rightarrow> ('e, 'a) outcome \<Rightarrow> ('e, 'b) outcome" where
  "map_ok f (Ok a) = Ok (f a)"
| "map_ok f (Err e) = Err e"
| "map_ok f Panic = Panic"
| "map_ok f Pending = Pending"
| "map_ok f Hang = Hang"

fun is_ok :: "('e, 'a) outcome \<Rightarrow> bool" where
  "is_ok (Ok a) = True"
| "is_ok _ = False"

text \<open>\<open>returned\<close>: the call came back to its caller, with a value or an error.\<close>

fun returned :: "('e, 'a) outcome \<Rightarrow> bool" where
  "returned (Ok a) = True"
| "returned (Err e) = True"
| "returned _ = False"

definition ok_or :: "'e \<Rightarrow> 'a option \<Rightarrow> ('e, 'a) outcome" where
  "ok_or e x = (case x of Some a \<Rightarrow> Ok a | None \<Rightarrow> Err e)"

lemma bind_outcome_Ok_iff:
  "bind_outcome r k = Ok b \<longleftrightarrow> (\<exists>a. r = Ok a \<and> k a = Ok b)"
  by (cases r) auto

lemma and_then_Ok_iff:
  "and_then r k = (Ok b, t) \<longleftrightarrow> (\<exists>a s. r = (Ok a, s) \<and> k a s = (Ok b, t))"
  by (cases "(r, k)" rule: and_then.cases) auto

lemma and_then_OkE:
  assumes "and_then r k = (Ok b, t)"
  obtains a s where "r = (Ok a, s)" "k a s = (Ok b, t)"
  using assms by (auto simp: and_then_Ok_iff)

text \<open>Either the first computation delivers and the second runs, or its outcome is passed on.\<close>

lemma and_then_cases:
  assumes "and_then m k = (r, t)"
  obtains (runs) a u where "m = (Ok a, u)" "k a u = (r, t)"
  | (fails) f where "m = (f, t)" "\<not> is_ok f" "\<not> is_ok r" "returned r = returned f"
      "\<And>e. r = Err e \<longleftrightarrow> f = Err e" "r = Hang \<longleftrightarrow> f = Hang" "r = Panic \<longleftrightarrow> f = Panic"
      "r = Pending \<longleftrightarrow> f = Pending"
proof -
  obtain f u where m: "m = (f, u)" by fastforce
  show thesis
  proof (cases f)
    case (Ok a)
    then show thesis using runs m assms by auto
  qed (use fails m assms in \<open>auto\<close>)
qed

lemma map_ok_Ok_iff: "map_ok f r = Ok b \<longleftrightarrow> (\<exists>a. r = Ok a \<and> b = f a)"
  by (cases r) auto

lemma ok_or_Some [simp]: "ok_or e (Some a) = Ok a"
  by (simp add: ok_or_def)

lemma ok_or_None [simp]: "ok_or e None = Err e"
  by (simp add: ok_or_def)

lemma ok_or_Ok_iff [simp]: "ok_or e x = Ok a \<longleftrightarrow> x = Some a"
  by (cases x) auto

lemma and_then_no_change:
  assumes "\<And>a s. k a s = (f a, s)"
  shows "and_then (r, s) k = (bind_outcome r f, s)"
  using assms by (cases r) auto

section \<open>Bytes and strings\<close>

text \<open>
  A byte is a \<open>char\<close> of HOL (eight bits). A \<open>Vec<u8>\<close> or \<open>&[u8]\<close> is a list of them, and so is a Rust
  \<open>String\<close> or \<open>&str\<close>, which is a byte vector that holds UTF-8; \<open>len\<close> counts bytes in both.
\<close>

type_synonym byte = char
type_synonym bytes = "char list"

abbreviation CR :: byte where "CR \<equiv> CHR 0x0D"
abbreviation LF :: byte where "LF \<equiv> CHR 0x0A"
abbreviation CRLF :: bytes where "CRLF \<equiv> [CR, LF]"

lemma of_char_less_256: "of_char (c :: char) < (256 :: nat)"
  using mod_less_divisor [of 256 "of_char c :: nat"] by (simp del: mod_less_divisor)

section \<open>Integers\<close>

text \<open>
  An \<open>i64\<close> is an \<open>int\<close> between its two bounds, a \<open>usize\<close> or \<open>u64\<close> a \<open>nat\<close> below \<open>2 ^ 64\<close> (64-bit
  targets); a cast or an operation that can leave the range has its wrap-around written out.
\<close>

definition in_i64 :: "int \<Rightarrow> bool" where
  "in_i64 i \<longleftrightarrow> - (2 ^ 63) \<le> i \<and> i < 2 ^ 63"

definition in_u64 :: "nat \<Rightarrow> bool" where
  "in_u64 n \<longleftrightarrow> n < 2 ^ 64"

definition as_u64 :: "int \<Rightarrow> nat" where
  "as_u64 i = nat (i mod 2 ^ 64)"

definition as_i64 :: "nat \<Rightarrow> int" where
  "as_i64 n = (let m = int n mod 2 ^ 64 in if m < 2 ^ 63 then m else m - 2 ^ 64)"

text \<open>Division of an \<open>i64\<close> by two: it truncates towards zero.\<close>

definition half_i64 :: "int \<Rightarrow> int" where
  "half_i64 i = (if i < 0 then - ((- i) div 2) else i div 2)"

definition isize_max :: nat where
  "isize_max = 2 ^ 63 - 1"

lemma as_u64_nonneg: "0 \<le> i \<Longrightarrow> in_i64 i \<Longrightarrow> as_u64 i = nat i"
  by (simp add: as_u64_def in_i64_def)

lemma as_u64_neg: "i < 0 \<Longrightarrow> in_i64 i \<Longrightarrow> isize_max < as_u64 i"
proof -
  assume i: "i < 0" "in_i64 i"
  then have "i mod 2 ^ 64 = (i + 2 ^ 64) mod 2 ^ 64" by simp
  also have "\<dots> = i + 2 ^ 64"
    using i unfolding in_i64_def by (intro mod_pos_pos_trivial) auto
  finally show ?thesis
    using i unfolding as_u64_def isize_max_def in_i64_def by (simp add: nat_less_iff)
qed

lemma as_i64_in_i64: "in_i64 (as_i64 n)"
proof -
  have m: "0 \<le> int n mod 2 ^ 64" "int n mod 2 ^ 64 < 2 ^ 64" by simp_all
  show ?thesis
  proof (cases "int n mod 2 ^ 64 < 2 ^ 63")
    case True
    then show ?thesis using m(1) by (simp add: as_i64_def in_i64_def Let_def)
  next
    case False
    then show ?thesis using m(2) by (simp add: as_i64_def in_i64_def Let_def)
  qed
qed

lemma as_i64_small: "n < 2 ^ 63 \<Longrightarrow> as_i64 n = int n"
  by (simp add: as_i64_def Let_def)

section \<open>Lists\<close>

lemma takeWhile_append_stop:
  "\<forall>x \<in> set xs. P x \<Longrightarrow> \<not> P y \<Longrightarrow> takeWhile P (xs @ y # ys) = xs"
  by (induction xs) auto

lemma append_eq_take_drop: "xs = ys @ zs \<Longrightarrow> take (length ys) xs = ys \<and> drop (length ys) xs = zs"
  by simp

lemma filter_list_update_length:
  "i < length xs \<Longrightarrow>
    length (filter P (xs[i := x])) + (if P (xs ! i) then 1 else 0) =
    length (filter P xs) + (if P x then 1 else 0)"
proof (induction xs arbitrary: i)
  case Nil
  then show ?case by simp
next
  case (Cons a xs)
  then show ?case by (cases i) auto
qed

named_theorems wire_simps \<open>rewrite rules about bytes on the wire\<close>
named_theorems pool_simps \<open>rewrite rules about the connection pool\<close>
named_theorems cmd_simps \<open>unfolding rules of the command methods\<close>

lemma foldl_snoc: "foldl (\<lambda>ys x. ys @ [x]) acc xs = acc @ xs"
  by (induction xs arbitrary: acc) auto

text \<open>A sum over a list of which one element changes.\<close>

lemma sum_list_map_update:
  fixes f :: "'a \<Rightarrow> 'b :: comm_monoid_add"
  shows "i < length xs \<Longrightarrow> sum_list (map f (xs[i := x])) + f (xs ! i) = sum_list (map f xs) + f x"
proof (induction xs arbitrary: i)
  case Nil
  then show ?case by simp
next
  case (Cons a xs)
  then show ?case by (cases i) (simp_all add: ac_simps)
qed

end
