(* ===== verification/Errors.thy ===== *)
theory Errors imports Prelude begin

text \<open>
  \<open>src/error.rs\<close>: the error type of the crate, its \<open>Display\<close> text and the conversions the other
  modules call through \<open>?\<close> and \<open>into()\<close>.
\<close>

section \<open>The error type\<close>

text \<open>The four unit structs and the server error, each with its \<open>Display\<close> text.\<close>

datatype NilError = NilError
datatype TxFailedError = TxFailedError
datatype ClosedError = ClosedError
datatype RateLimitedError = RateLimitedError
datatype RedisError = RedisError string

fun NilError_fmt :: "NilError \<Rightarrow> string" where
  "NilError_fmt NilError = ''redis: nil''"

fun TxFailedError_fmt :: "TxFailedError \<Rightarrow> string" where
  "TxFailedError_fmt TxFailedError = ''redis: transaction failed''"

fun ClosedError_fmt :: "ClosedError \<Rightarrow> string" where
  "ClosedError_fmt ClosedError = ''redis: client is closed''"

fun RateLimitedError_fmt :: "RateLimitedError \<Rightarrow> string" where
  "RateLimitedError_fmt RateLimitedError = ''redis: you open connections too fast''"

fun RedisError_fmt :: "RedisError \<Rightarrow> string" where
  "RedisError_fmt (RedisError s) = s"

text \<open>\<open>Error\<close>: the constructors carry the prefix \<open>E\<close>, since \<open>Nil\<close> is the empty list of HOL.\<close>

datatype Error =
    ENil
  | ETxFailed
  | EClosed
  | ERateLimited
  | ERedis RedisError
  | EIo string
  | EOther string
  | ETimeout

fun Error_fmt :: "Error \<Rightarrow> string" where
  "Error_fmt ENil = ''redis: nil''"
| "Error_fmt ETxFailed = ''redis: transaction failed''"
| "Error_fmt EClosed = ''redis: client is closed''"
| "Error_fmt ERateLimited = ''redis: you open connections too fast''"
| "Error_fmt (ERedis e) = RedisError_fmt e"
| "Error_fmt (EIo s) = ''IO error: '' @ s"
| "Error_fmt (EOther s) = s"
| "Error_fmt ETimeout = ''timeout''"

type_synonym 'a res = "(Error, 'a) outcome"

section \<open>Conversions\<close>

text \<open>\<open>From<Elapsed>\<close>, \<open>From<io::Error>\<close> (given by its text) and \<open>From<&str>\<close>.\<close>

definition from_elapsed :: Error where
  "from_elapsed = ETimeout"

definition from_io :: "string \<Rightarrow> Error" where
  "from_io text = EIo text"

definition from_str :: "string \<Rightarrow> Error" where
  "from_str s = EOther s"

definition redis_error :: "string \<Rightarrow> RedisError" where
  "redis_error s = RedisError s"

text \<open>\<open>redis_error(s).into()\<close>, the form in which the parser raises its own errors.\<close>

abbreviation redis_err :: "string \<Rightarrow> Error" where
  "redis_err s \<equiv> ERedis (redis_error s)"

section \<open>Facts\<close>

text \<open>The texts of the unit structs and of the variants of the same name agree.\<close>

lemma unit_struct_texts:
  "NilError_fmt NilError = Error_fmt ENil"
  "TxFailedError_fmt TxFailedError = Error_fmt ETxFailed"
  "ClosedError_fmt ClosedError = Error_fmt EClosed"
  "RateLimitedError_fmt RateLimitedError = Error_fmt ERateLimited"
  by simp_all

text \<open>
  The protocol state of a caller depends on telling three errors apart by their constructor alone:
  the ones the client methods match on.
\<close>

lemma from_never_nil [simp]:
  "from_elapsed \<noteq> ENil" "from_io s \<noteq> ENil" "from_str s \<noteq> ENil" "redis_err s \<noteq> ENil"
  by (simp_all add: from_elapsed_def from_io_def from_str_def)

end
