(* ===== verification/Text.thy ===== *)
theory Text imports Prelude begin

text \<open>
  The parts of Rust's standard library for text that the crate calls: decimal printing and parsing
  of integers, UTF-8 validation and its lossy form, ASCII case folding, substring search and
  trimming. Each follows the documented behaviour of the standard library on byte lists.
\<close>

section \<open>Decimal text of integers\<close>

definition digit_char :: "nat \<Rightarrow> char" where
  "digit_char d = char_of (48 + d)"

text \<open>\<open>to_string\<close> of an unsigned and of a signed integer.\<close>

fun show_nat :: "nat \<Rightarrow> string" where
  "show_nat n = (if n < 10 then [digit_char n] else show_nat (n div 10) @ [digit_char (n mod 10)])"

declare show_nat.simps [simp del]

definition show_int :: "int \<Rightarrow> string" where
  "show_int i = (if i < 0 then CHR ''-'' # show_nat (nat (- i)) else show_nat (nat i))"

definition digit_val :: "char \<Rightarrow> nat option" where
  "digit_val c =
    (let n = of_char c :: nat in if 48 \<le> n \<and> n \<le> 57 then Some (n - 48) else None)"

fun digits_val :: "nat \<Rightarrow> string \<Rightarrow> nat option" where
  "digits_val acc [] = Some acc"
| "digits_val acc (c # cs) =
    (case digit_val c of None \<Rightarrow> None | Some d \<Rightarrow> digits_val (10 * acc + d) cs)"

text \<open>
  \<open>str::parse::<usize>\<close>: an optional plus sign, then at least one digit; a minus sign is not a
  digit; a value that does not fit is an error.
\<close>

definition parse_usize :: "string \<Rightarrow> nat option" where
  "parse_usize s =
    (let body = (case s of c # cs \<Rightarrow> if c = CHR ''+'' then cs else s | [] \<Rightarrow> [])
     in if body = [] then None
        else case digits_val 0 body of
               None \<Rightarrow> None
             | Some n \<Rightarrow> if in_u64 n then Some n else None)"

text \<open>\<open>str::parse::<i64>\<close>: an optional sign, then at least one digit, within the bounds.\<close>

definition parse_i64 :: "string \<Rightarrow> int option" where
  "parse_i64 s =
    (let neg = (case s of c # cs \<Rightarrow> c = CHR ''-'' | [] \<Rightarrow> False);
         body = (case s of c # cs \<Rightarrow> if c = CHR ''+'' \<or> c = CHR ''-'' then cs else s | [] \<Rightarrow> [])
     in if body = [] then None
        else case digits_val 0 body of
               None \<Rightarrow> None
             | Some n \<Rightarrow> (let i = (if neg then - int n else int n)
                          in if in_i64 i then Some i else None))"

lemma show_nat_small: "n < 10 \<Longrightarrow> show_nat n = [digit_char n]"
  by (subst show_nat.simps) simp

lemma show_nat_step: "10 \<le> n \<Longrightarrow> show_nat n = show_nat (n div 10) @ [digit_char (n mod 10)]"
  by (subst show_nat.simps) simp

lemma show_nat_nonempty [simp]: "show_nat n \<noteq> []"
  by (subst show_nat.simps) simp

lemma digit_val_digit_char [simp]: "d < 10 \<Longrightarrow> digit_val (digit_char d) = Some d"
  by (simp add: digit_val_def digit_char_def)

lemma digits_val_append:
  "digits_val acc (xs @ ys) =
    (case digits_val acc xs of None \<Rightarrow> None | Some a \<Rightarrow> digits_val a ys)"
  by (induction xs arbitrary: acc) (auto split: option.splits)

lemma digits_val_show_nat: "digits_val 0 (show_nat n) = Some n"
proof (induction n rule: show_nat.induct)
  case (1 n)
  show ?case
  proof (cases "n < 10")
    case True
    then show ?thesis by (simp add: show_nat_small)
  next
    case False
    then show ?thesis using 1 by (simp add: show_nat_step digits_val_append)
  qed
qed

text \<open>Every character of a decimal text is a digit.\<close>

definition is_digit :: "char \<Rightarrow> bool" where
  "is_digit c \<longleftrightarrow> digit_val c \<noteq> None"

lemma is_digit_iff: "is_digit c \<longleftrightarrow> 48 \<le> (of_char c :: nat) \<and> of_char c \<le> (57 :: nat)"
  by (auto simp: is_digit_def digit_val_def Let_def split: if_splits)

lemma is_digit_digit_char [simp]: "d < 10 \<Longrightarrow> is_digit (digit_char d)"
  by (simp add: is_digit_def)

lemma show_nat_digits: "\<forall>c \<in> set (show_nat n). is_digit c"
proof (induction n rule: show_nat.induct)
  case (1 n)
  show ?case
  proof (cases "n < 10")
    case True
    then show ?thesis by (simp add: show_nat_small)
  next
    case False
    then show ?thesis using 1 by (simp add: show_nat_step)
  qed
qed

lemma digit_not_special:
  "is_digit c \<Longrightarrow> c \<noteq> CR \<and> c \<noteq> LF \<and> c \<noteq> CHR ''-'' \<and> c \<noteq> CHR ''+''"
  by (auto simp: is_digit_iff)

lemma show_nat_not_special:
  "c \<in> set (show_nat n) \<Longrightarrow> c \<noteq> CR \<and> c \<noteq> LF \<and> c \<noteq> CHR ''-'' \<and> c \<noteq> CHR ''+''"
  using show_nat_digits digit_not_special by blast

lemma show_nat_Cons:
  obtains c cs where "show_nat n = c # cs" "is_digit c"
proof (cases "show_nat n")
  case Nil
  then show ?thesis by simp
next
  case (Cons c cs)
  then show ?thesis using show_nat_digits [of n] that by simp
qed

text \<open>Printing and parsing are inverse to each other, within the type's range.\<close>

lemma parse_usize_show_nat: "in_u64 n \<Longrightarrow> parse_usize (show_nat n) = Some n"
proof -
  assume n: "in_u64 n"
  obtain c cs where c: "show_nat n = c # cs" "is_digit c" by (rule show_nat_Cons)
  have "digits_val 0 (c # cs) = Some n" using digits_val_show_nat [of n] c(1) by simp
  then show ?thesis
    using n c digit_not_special [OF c(2)]
    unfolding parse_usize_def Let_def c(1) by (simp del: digits_val.simps)
qed

lemma parse_i64_show_int: "in_i64 i \<Longrightarrow> parse_i64 (show_int i) = Some i"
proof (cases "i < 0")
  case True
  moreover assume "in_i64 i"
  ultimately show ?thesis
    using digits_val_show_nat [of "nat (- i)"] by (simp add: parse_i64_def show_int_def Let_def)
next
  case False
  moreover assume "in_i64 i"
  moreover obtain c cs where c: "show_nat (nat i) = c # cs" "is_digit c" by (rule show_nat_Cons)
  moreover have "digits_val 0 (c # cs) = Some (nat i)"
    using digits_val_show_nat [of "nat i"] c(1) by simp
  ultimately show ?thesis
    using digit_not_special [OF c(2)]
    by (simp add: parse_i64_def show_int_def Let_def del: digits_val.simps)
qed

lemma parse_usize_in_u64: "parse_usize s = Some n \<Longrightarrow> in_u64 n"
  by (auto simp: parse_usize_def Let_def split: if_splits option.splits)

lemma parse_i64_in_i64: "parse_i64 s = Some i \<Longrightarrow> in_i64 i"
  by (auto simp: parse_i64_def Let_def split: if_splits option.splits)

end
