(* ===== verification/Utf8.thy ===== *)
theory Utf8 imports Text begin

text \<open>
  UTF-8 as \<open>String::from_utf8\<close> checks it and as \<open>String::from_utf8_lossy\<close> repairs it: the decoder
  reads one character, or one maximal invalid run, at a time; the lossy form replaces each such run
  by U+FFFD.  The table of admissible second bytes is the one of the Unicode standard, which both
  functions of the standard library follow.
\<close>

section \<open>One character\<close>

text \<open>The byte at an index, 0 past the end (so never a continuation byte there).\<close>

definition byte_at :: "bytes \<Rightarrow> nat \<Rightarrow> nat" where
  "byte_at bs i = (if i < length bs then of_char (bs ! i) else 0)"

definition is_cont :: "nat \<Rightarrow> bool" where
  "is_cont n \<longleftrightarrow> 128 \<le> n \<and> n \<le> 191"

definition second3_ok :: "nat \<Rightarrow> nat \<Rightarrow> bool" where
  "second3_ok b0 b1 =
    (if b0 = 0xE0 then 0xA0 \<le> b1 \<and> b1 \<le> 0xBF
     else if b0 = 0xED then 0x80 \<le> b1 \<and> b1 \<le> 0x9F
     else is_cont b1)"

definition second4_ok :: "nat \<Rightarrow> nat \<Rightarrow> bool" where
  "second4_ok b0 b1 =
    (if b0 = 0xF0 then 0x90 \<le> b1 \<and> b1 \<le> 0xBF
     else if b0 = 0xF4 then 0x80 \<le> b1 \<and> b1 \<le> 0x8F
     else is_cont b1)"

text \<open>Whether the list starts with a character, and the length of it or of the invalid run.\<close>

definition utf8_step :: "bytes \<Rightarrow> bool \<times> nat" where
  "utf8_step bs =
    (let b0 = byte_at bs 0; b1 = byte_at bs 1; b2 = byte_at bs 2; b3 = byte_at bs 3 in
     if b0 < 0x80 then (True, 1)
     else if 0xC2 \<le> b0 \<and> b0 \<le> 0xDF then (if is_cont b1 then (True, 2) else (False, 1))
     else if 0xE0 \<le> b0 \<and> b0 \<le> 0xEF then
       (if second3_ok b0 b1 then (if is_cont b2 then (True, 3) else (False, 2)) else (False, 1))
     else if 0xF0 \<le> b0 \<and> b0 \<le> 0xF4 then
       (if second4_ok b0 b1
        then (if is_cont b2 then (if is_cont b3 then (True, 4) else (False, 3)) else (False, 2))
        else (False, 1))
     else (False, 1))"

lemma utf8_step_pos: "utf8_step bs = (ok, n) \<Longrightarrow> 0 < n"
  by (auto simp: utf8_step_def Let_def split: if_splits)

lemma is_cont_byte_at: "is_cont (byte_at bs i) \<Longrightarrow> i < length bs"
  by (auto simp: byte_at_def is_cont_def split: if_splits)

lemma second_ok_byte_at:
  "second3_ok b0 (byte_at bs i) \<Longrightarrow> i < length bs"
  "second4_ok b0 (byte_at bs i) \<Longrightarrow> i < length bs"
  by (auto simp: byte_at_def second3_ok_def second4_ok_def is_cont_def split: if_splits)

lemma utf8_step_length: "bs \<noteq> [] \<Longrightarrow> utf8_step bs = (ok, n) \<Longrightarrow> n \<le> length bs"
  by (auto simp: utf8_step_def Let_def Suc_le_eq split: if_splits
        dest!: is_cont_byte_at second_ok_byte_at)

lemma byte_at_append: "i < length xs \<Longrightarrow> byte_at (xs @ ys) i = byte_at xs i"
  by (simp add: byte_at_def nth_append)

lemma byte_at_take: "i < n \<Longrightarrow> byte_at (take n xs) i = byte_at xs i"
  by (simp add: byte_at_def)

text \<open>A character is read the same whatever follows it: only its own bytes are looked at.\<close>

lemma utf8_step_cases:
  assumes "utf8_step xs = (True, n)"
  shows "n = 1 \<or> n = 2 \<or> n = 3 \<or> n = 4"
  using assms by (auto simp: utf8_step_def Let_def split: if_splits)

lemma utf8_step_cong:
  assumes st: "utf8_step xs = (True, n)" and eq: "\<And>i. i < n \<Longrightarrow> byte_at ys i = byte_at xs i"
  shows "utf8_step ys = (True, n)"
  using utf8_step_cases [OF st]
proof (elim disjE)
  assume n: "n = 1"
  show ?thesis using st eq [of 0] unfolding n utf8_step_def Let_def by (simp split: if_splits)
next
  assume n: "n = 2"
  show ?thesis using st eq [of 0] eq [of 1] unfolding n utf8_step_def Let_def
    by (simp split: if_splits)
next
  assume n: "n = 3"
  show ?thesis using st eq [of 0] eq [of 1] eq [of 2] unfolding n utf8_step_def Let_def
    by (simp split: if_splits)
next
  assume n: "n = 4"
  show ?thesis using st eq [of 0] eq [of 1] eq [of 2] eq [of 3] unfolding n utf8_step_def Let_def
    by (simp split: if_splits)
qed

lemma utf8_step_append:
  assumes "xs \<noteq> []" "utf8_step xs = (True, n)"
  shows "utf8_step (xs @ ys) = (True, n)"
  using utf8_step_length [OF assms] by (intro utf8_step_cong [OF assms(2)] byte_at_append) simp

lemma utf8_step_take:
  assumes "utf8_step bs = (True, n)"
  shows "utf8_step (take n bs) = (True, n)"
  by (rule utf8_step_cong [OF assms byte_at_take])

lemma utf8_step_ascii: "of_char c < (128 :: nat) \<Longrightarrow> utf8_step (c # cs) = (True, 1)"
  by (simp add: utf8_step_def byte_at_def)

section \<open>Validation and the lossy form\<close>

function utf8_valid :: "bytes \<Rightarrow> bool" where
  "utf8_valid bs =
    (if bs = [] then True
     else case utf8_step bs of (ok, n) \<Rightarrow> ok \<and> utf8_valid (drop n bs))"
  by pat_completeness auto
termination
  by (relation "measure length") (auto dest!: utf8_step_pos [OF sym])

function utf8_lossy :: "bytes \<Rightarrow> string" where
  "utf8_lossy bs =
    (if bs = [] then []
     else case utf8_step bs of (ok, n) \<Rightarrow>
       (if ok then take n bs else [CHR 0xEF, CHR 0xBF, CHR 0xBD]) @ utf8_lossy (drop n bs))"
  by pat_completeness auto
termination
  by (relation "measure length") (auto dest!: utf8_step_pos [OF sym])

declare utf8_valid.simps [simp del] utf8_lossy.simps [simp del]

text \<open>\<open>String::from_utf8\<close> and \<open>str::from_utf8\<close>: the same bytes, if they are valid.\<close>

definition from_utf8 :: "bytes \<Rightarrow> string option" where
  "from_utf8 bs = (if utf8_valid bs then Some bs else None)"

lemma utf8_valid_Nil [simp]: "utf8_valid []"
  by (simp add: utf8_valid.simps)

lemma utf8_lossy_Nil [simp]: "utf8_lossy [] = []"
  by (simp add: utf8_lossy.simps)

lemma utf8_valid_ascii_Cons: "of_char c < (128 :: nat) \<Longrightarrow> utf8_valid (c # cs) = utf8_valid cs"
  by (subst utf8_valid.simps) (simp add: utf8_step_ascii)

lemma utf8_valid_ascii: "\<forall>c \<in> set s. of_char c < (128 :: nat) \<Longrightarrow> utf8_valid s"
  by (induction s) (simp_all add: utf8_valid_ascii_Cons)

lemma utf8_valid_step: "bs \<noteq> [] \<Longrightarrow> utf8_step bs = (ok, n) \<Longrightarrow> utf8_valid bs = (ok \<and> utf8_valid (drop n bs))"
  by (subst utf8_valid.simps) simp

lemma utf8_lossy_step:
  "bs \<noteq> [] \<Longrightarrow> utf8_step bs = (ok, n) \<Longrightarrow>
    utf8_lossy bs =
      (if ok then take n bs else [CHR 0xEF, CHR 0xBF, CHR 0xBD]) @ utf8_lossy (drop n bs)"
  by (subst utf8_lossy.simps) simp

text \<open>An induction over the characters (or invalid runs) of a byte list.\<close>

lemma utf8_induct [case_names empty step]:
  assumes "P []"
    and "\<And>bs ok n. bs \<noteq> [] \<Longrightarrow> utf8_step bs = (ok, n) \<Longrightarrow> 0 < n \<Longrightarrow> n \<le> length bs \<Longrightarrow>
          P (drop n bs) \<Longrightarrow> P bs"
  shows "P bs"
proof (induction bs rule: length_induct)
  case (1 bs)
  show ?case
  proof (cases "bs = []")
    case True
    then show ?thesis using assms(1) by simp
  next
    case False
    obtain ok n where st: "utf8_step bs = (ok, n)" by fastforce
    have n: "0 < n" "n \<le> length bs" using utf8_step_pos [OF st] utf8_step_length [OF False st] by auto
    have "P (drop n bs)" using 1 n False by (simp add: diff_less)
    then show ?thesis by (rule assms(2) [OF False st n])
  qed
qed

lemma utf8_valid_append: "utf8_valid xs \<Longrightarrow> utf8_valid (xs @ ys) = utf8_valid ys"
proof (induction xs rule: utf8_induct)
  case empty
  then show ?case by simp
next
  case (step xs ok n)
  have v: "ok \<and> utf8_valid (drop n xs)" using step(6) utf8_valid_step [OF step(1,2)] by simp
  then have st: "utf8_step (xs @ ys) = (True, n)"
    using step(2) by (intro utf8_step_append [OF step(1)]) simp
  have "utf8_valid (xs @ ys) = utf8_valid (drop n (xs @ ys))"
    using step(1) st utf8_valid_step [of "xs @ ys"] by simp
  also have "drop n (xs @ ys) = drop n xs @ ys" using step(4) by simp
  finally show ?case using step(5) v by simp
qed

text \<open>On valid input the lossy form is the identity, and its result is always valid.\<close>

lemma utf8_lossy_id: "utf8_valid bs \<Longrightarrow> utf8_lossy bs = bs"
proof (induction bs rule: utf8_induct)
  case empty
  then show ?case by simp
next
  case (step bs ok n)
  have v: "ok \<and> utf8_valid (drop n bs)" using step(6) utf8_valid_step [OF step(1,2)] by simp
  with step(5) have "utf8_lossy (drop n bs) = drop n bs" by simp
  then show ?case using v utf8_lossy_step [OF step(1,2)] by simp
qed

lemma utf8_valid_replacement: "utf8_valid ([CHR 0xEF, CHR 0xBF, CHR 0xBD] @ s) = utf8_valid s"
proof -
  have "utf8_step ([CHR 0xEF, CHR 0xBF, CHR 0xBD] @ s) = (True, 3)"
    by (simp add: utf8_step_def byte_at_def Let_def is_cont_def second3_ok_def)
  from utf8_valid_step [OF _ this] show ?thesis by simp
qed

lemma utf8_valid_lossy: "utf8_valid (utf8_lossy bs)"
proof (induction bs rule: utf8_induct)
  case empty
  then show ?case by simp
next
  case (step bs ok n)
  have "utf8_valid (take n bs)" if ok
  proof -
    have "utf8_step (take n bs) = (True, n)" using step(2) that utf8_step_take by simp
    then show ?thesis using step(1,3,4) utf8_valid_step [of "take n bs" True n] by auto
  qed
  then show ?case
    using step(1,2,5) utf8_valid_replacement by (simp add: utf8_lossy_step utf8_valid_append)
qed

lemma from_utf8_Some [simp]: "from_utf8 bs = Some s \<longleftrightarrow> utf8_valid bs \<and> s = bs"
  by (auto simp: from_utf8_def)

lemma from_utf8_None [simp]: "from_utf8 bs = None \<longleftrightarrow> \<not> utf8_valid bs"
  by (simp add: from_utf8_def)

section \<open>String routines\<close>

definition ascii_lower :: "char \<Rightarrow> char" where
  "ascii_lower c =
    (let n = of_char c :: nat in if 65 \<le> n \<and> n \<le> 90 then char_of (n + 32) else c)"

definition eq_ignore_ascii_case :: "string \<Rightarrow> string \<Rightarrow> bool" where
  "eq_ignore_ascii_case s t \<longleftrightarrow> map ascii_lower s = map ascii_lower t"

fun starts_with :: "string \<Rightarrow> string \<Rightarrow> bool" where
  "starts_with s [] = True"
| "starts_with [] (p # ps) = False"
| "starts_with (c # cs) (p # ps) = (c = p \<and> starts_with cs ps)"

fun str_contains :: "string \<Rightarrow> string \<Rightarrow> bool" where
  "str_contains [] p = (p = [])"
| "str_contains (c # cs) p = (starts_with (c # cs) p \<or> str_contains cs p)"

definition trim_end_char :: "char \<Rightarrow> string \<Rightarrow> string" where
  "trim_end_char c s = rev (dropWhile (\<lambda>x. x = c) (rev s))"

lemma starts_with_iff: "starts_with s p \<longleftrightarrow> (\<exists>r. s = p @ r)"
  by (induction s p rule: starts_with.induct) auto

lemma str_contains_iff: "str_contains s p \<longleftrightarrow> (\<exists>l r. s = l @ p @ r)"
proof (induction s)
  case Nil
  then show ?case by auto
next
  case (Cons c cs)
  show ?case
  proof
    assume "str_contains (c # cs) p"
    then consider "starts_with (c # cs) p" | "str_contains cs p" by auto
    then show "\<exists>l r. c # cs = l @ p @ r"
    proof cases
      case 1
      then show ?thesis by (metis append_Nil starts_with_iff)
    next
      case 2
      then show ?thesis using Cons by (metis append_Cons)
    qed
  next
    assume "\<exists>l r. c # cs = l @ p @ r"
    then obtain l r where l: "c # cs = l @ p @ r" by blast
    show "str_contains (c # cs) p"
    proof (cases l)
      case Nil
      then show ?thesis using l by (metis append_Nil starts_with_iff str_contains.simps(2))
    next
      case (Cons _ l')
      then show ?thesis using l Cons.IH by auto
    qed
  qed
qed

end
