(* ===== verification/Environment.thy ===== *)
theory Environment imports Errors Utf8 begin

text \<open>
  What the crate takes from outside \<open>src/\<close>: the third-party functions it calls, and what the build
  and the machine fix. Every definition that needs one of them takes this record as an argument.

  \<^item> \<open>overflow_checks\<close>: whether integer overflow panics (the dev profile) or wraps (release).
  \<^item> \<open>mem_limit\<close>: the largest number of bytes one allocation can have; past it, or past
    \<open>isize::MAX\<close>, the reservation panics or aborts the process.
  \<^item> \<open>table_bytes\<close>: the bytes a \<open>HashMap\<close> reserves for a given number of entries.
  \<^item> \<open>itoa_format\<close>: \<open>itoa::Buffer::format\<close> of the crate itoa; its documentation promises the decimal
    text of the integer, the hypothesis \<open>itoa_decimal\<close>.
  \<^item> \<open>sha1_digest\<close>, \<open>hex_encode\<close>: the digest of the crate sha1 and \<open>hex::encode\<close> of the crate hex.
  \<^item> \<open>str_debug\<close>: the quoted and escaped form \<open>{:?}\<close> of a string, which depends on Unicode tables.
\<close>

record env =
  overflow_checks :: bool
  mem_limit :: nat
  table_bytes :: "nat \<Rightarrow> nat"
  itoa_format :: "nat \<Rightarrow> string"
  sha1_digest :: "bytes \<Rightarrow> bytes"
  hex_encode :: "bytes \<Rightarrow> string"
  str_debug :: "string \<Rightarrow> string"

definition itoa_decimal :: "env \<Rightarrow> bool" where
  "itoa_decimal E \<longleftrightarrow> itoa_format E = show_nat"

lemma itoa_decimalD [simp]: "itoa_decimal E \<Longrightarrow> itoa_format E n = show_nat n"
  by (simp add: itoa_decimal_def)

text \<open>Whether a reservation of so many bytes succeeds, and \<open>Vec::with_capacity\<close> of \<open>n\<close> elements.\<close>

definition can_reserve :: "env \<Rightarrow> nat \<Rightarrow> bool" where
  "can_reserve E b \<longleftrightarrow> b \<le> min (mem_limit E) isize_max"

definition with_capacity :: "env \<Rightarrow> nat \<Rightarrow> nat \<Rightarrow> unit res" where
  "with_capacity E sz n = (if can_reserve E (n * sz) then Ok () else Panic)"

text \<open>Sizes of the element types on the 64-bit targets.\<close>

definition size_of_Value :: nat where "size_of_Value = 32"
definition size_of_String :: nat where "size_of_String = 24"
definition size_of_Z :: nat where "size_of_Z = 32"

lemma with_capacity_cases: "with_capacity E sz n = Ok () \<or> with_capacity E sz n = Panic"
  by (simp add: with_capacity_def)

lemma with_capacity_negative:
  "i < 0 \<Longrightarrow> in_i64 i \<Longrightarrow> 0 < sz \<Longrightarrow> with_capacity E sz (as_u64 i) = Panic"
proof -
  assume i: "i < 0" "in_i64 i" and s: "0 < sz"
  have "isize_max < as_u64 i" by (rule as_u64_neg [OF i])
  also have "\<dots> \<le> as_u64 i * sz" using s by simp
  finally show ?thesis by (simp add: with_capacity_def can_reserve_def)
qed

text \<open>A concrete environment, in which the parameters have their documented values.\<close>

definition hex_digit :: "nat \<Rightarrow> char" where
  "hex_digit n = (if n < 10 then char_of (48 + n) else char_of (87 + n))"

definition sample_env :: env where
  "sample_env =
    \<lparr>overflow_checks = False, mem_limit = 2 ^ 40, table_bytes = (\<lambda>n. 64 * n),
     itoa_format = show_nat, sha1_digest = (\<lambda>bs. take 20 (bs @ replicate 20 (CHR 0x00))),
     hex_encode = (\<lambda>bs. concat (map (\<lambda>b. [hex_digit (of_char b div 16), hex_digit (of_char b mod 16)]) bs)),
     str_debug = (\<lambda>s. CHR 0x22 # s @ [CHR 0x22])\<rparr>"

lemma itoa_decimal_sample [simp]: "itoa_decimal sample_env"
  by (simp add: itoa_decimal_def sample_env_def)

lemma sample_env_memory [simp]: "mem_limit sample_env = 2 ^ 40" "overflow_checks sample_env = False"
  by (simp_all add: sample_env_def)

end
