(* ===== verification/Resp.thy ===== *)
theory Resp imports Environment begin

text \<open>
  The serializer of \<open>src/parser.rs\<close>: \<open>decimal_len\<close>, \<open>estimate_resp_size\<close> and \<open>append_args\<close>, which
  every command, pipeline and transaction uses to build the bytes it writes.
\<close>

section \<open>The serializer\<close>

text \<open>The loop of \<open>decimal_len\<close>: count the divisions by ten until nothing is left.\<close>

fun decimal_len_loop :: "nat \<Rightarrow> nat \<Rightarrow> nat" where
  "decimal_len_loop n len = (if 0 < n then decimal_len_loop (n div 10) (len + 1) else len)"

declare decimal_len_loop.simps [simp del]

definition decimal_len :: "nat \<Rightarrow> nat" where
  "decimal_len n = (if n = 0 then 1 else decimal_len_loop n 0)"

definition estimate_resp_size :: "string list \<Rightarrow> nat" where
  "estimate_resp_size args =
    foldl (\<lambda>n s. n + (1 + decimal_len (length s) + 2 + length s + 2))
      (4 + decimal_len (length args)) args"

definition append_args :: "env \<Rightarrow> bytes \<Rightarrow> string list \<Rightarrow> bytes" where
  "append_args E buf args =
    foldl (\<lambda>b s. b @ [CHR ''$''] @ itoa_format E (length s) @ CRLF @ s @ CRLF)
      (buf @ [CHR ''*''] @ itoa_format E (length args) @ CRLF) args"

section \<open>Its closed form\<close>

text \<open>One argument as a bulk string, and a whole command, as the protocol describes them.\<close>

definition resp_bulk :: "string \<Rightarrow> bytes" where
  "resp_bulk s = CHR ''$'' # show_nat (length s) @ CRLF @ s @ CRLF"

definition resp_command :: "string list \<Rightarrow> bytes" where
  "resp_command args = CHR ''*'' # show_nat (length args) @ CRLF @ concat (map resp_bulk args)"

lemma foldl_append_concat: "foldl (\<lambda>b x. b @ f x) b xs = b @ concat (map f xs)"
  by (induction xs arbitrary: b) simp_all

lemma foldl_plus_sum_list: "foldl (\<lambda>n x. n + f x) n xs = (n :: nat) + sum_list (map f xs)"
  by (induction xs arbitrary: n) simp_all

lemma append_args_command [wire_simps]:
  "itoa_decimal E \<Longrightarrow> append_args E buf args = buf @ resp_command args"
  by (simp add: append_args_def resp_command_def resp_bulk_def [abs_def] foldl_append_concat)

section \<open>Sizes\<close>

lemma decimal_len_loop_acc: "decimal_len_loop n len = len + decimal_len_loop n 0"
proof (induction n arbitrary: len rule: less_induct)
  case (less n)
  show ?case
  proof (cases "0 < n")
    case True
    then have "decimal_len_loop (n div 10) k = k + decimal_len_loop (n div 10) 0" for k
      by (intro less) simp
    from this [of "len + 1"] this [of 1] True show ?thesis
      by (simp add: decimal_len_loop.simps [of n])
  next
    case False
    then show ?thesis by (simp add: decimal_len_loop.simps)
  qed
qed

lemma decimal_len_loop_show: "0 < n \<Longrightarrow> decimal_len_loop n 0 = length (show_nat n)"
proof (induction n rule: show_nat.induct)
  case (1 n)
  have step: "decimal_len_loop n 0 = 1 + decimal_len_loop (n div 10) 0"
    using 1 by (subst decimal_len_loop.simps, subst decimal_len_loop_acc) simp
  show ?case
  proof (cases "n < 10")
    case True
    then show ?thesis using step by (simp add: show_nat_small decimal_len_loop.simps)
  next
    case False
    then show ?thesis using step 1 by (simp add: show_nat_step)
  qed
qed

lemma decimal_len_show: "decimal_len n = length (show_nat n)"
  by (cases "n = 0") (simp_all add: decimal_len_def decimal_len_loop_show show_nat_small)

lemma estimate_resp_size_sum:
  "estimate_resp_size args =
    4 + decimal_len (length args) +
    sum_list (map (\<lambda>s. 5 + decimal_len (length s) + length s) args)"
proof -
  have "estimate_resp_size args =
    4 + decimal_len (length args) +
    sum_list (map (\<lambda>s. 1 + decimal_len (length s) + 2 + length s + 2) args)"
    unfolding estimate_resp_size_def by (rule foldl_plus_sum_list)
  also have "map (\<lambda>s. 1 + decimal_len (length s) + 2 + length s + 2) args =
      map (\<lambda>s. 5 + decimal_len (length s) + length s) args"
    by (rule map_cong) simp_all
  finally show ?thesis .
qed

lemma length_resp_bulk: "length (resp_bulk s) = 5 + decimal_len (length s) + length s"
  by (simp add: resp_bulk_def decimal_len_show)

lemma length_resp_command: "Suc (length (resp_command args)) = estimate_resp_size args"
  by (simp add: resp_command_def estimate_resp_size_sum length_concat length_resp_bulk
      decimal_len_show comp_def)

end
