(* ===== verification/Reader.thy ===== *)
theory Reader imports Resp begin

text \<open>
  The two read loops of \<open>src/parser.rs\<close>, \<open>read_line\<close> and \<open>read_n\<close>, over the buffered reader they are
  generic in.  The reader is tokio's, so it is an argument: a record of the three operations the
  loops call.  The locale \<open>buf_reader\<close> states what the documentation of \<open>AsyncBufRead\<close> and
  \<open>AsyncRead\<close> promises of them, and the loops are proved correct under it, once for all readers.
\<close>

section \<open>The interface of a buffered reader\<close>

text \<open>
  \<open>fill_buf\<close> returns the bytes buffered, reading some first if there are none (none at all means
  end of file); \<open>consume\<close> marks bytes of them as read; \<open>read_some\<close> is \<open>AsyncReadExt::read\<close> into a
  buffer of the given length.  \<open>backlog\<close> is no operation: it is every byte the reader has still to
  deliver, which only proofs and the recursion bound of the parser look at.
\<close>

record 's reader =
  fill_buf :: "'s \<Rightarrow> bytes res \<times> 's"
  consume :: "nat \<Rightarrow> 's \<Rightarrow> 's"
  read_some :: "nat \<Rightarrow> 's \<Rightarrow> bytes res \<times> 's"
  backlog :: "'s \<Rightarrow> bytes"

definition MAX_LINE_LEN :: nat where
  "MAX_LINE_LEN = 64 * 1024"

section \<open>Reading a line\<close>

text \<open>
  The inner \<open>for\<close> loop over the buffered bytes: \<open>None\<close> is the early return with the error
  "line too long", otherwise the line so far, the number of bytes to consume and whether the newline
  was found.
\<close>

fun scan_line :: "bytes \<Rightarrow> nat \<Rightarrow> bytes \<Rightarrow> (bytes \<times> nat \<times> bool) option" where
  "scan_line line i [] = Some (line, i, False)"
| "scan_line line i (b # bs) =
    (if MAX_LINE_LEN \<le> length line then None
     else if b = LF then Some (line @ [b], i + 1, True)
     else scan_line (line @ [b]) (i + 1) bs)"

definition ends_with :: "bytes \<Rightarrow> bytes \<Rightarrow> bool" where
  "ends_with bs suf \<longleftrightarrow>
    length suf \<le> length bs \<and> drop (length bs - length suf) bs = suf"

definition strip_line :: "bytes \<Rightarrow> bytes" where
  "strip_line line =
    (if ends_with line CRLF then take (length line - 2) line
     else if ends_with line [LF] then take (length line - 1) line
     else line)"

lemma scan_line_grows:
  "scan_line line i bs = Some (line', n, found) \<Longrightarrow>
    line' = line @ take (n - i) bs \<and> i \<le> n \<and> n \<le> i + length bs \<and>
    (bs \<noteq> [] \<longrightarrow> i < n \<and> length line < MAX_LINE_LEN) \<and>
    (\<not> found \<longrightarrow> n = i + length bs \<and> LF \<notin> set bs)"
proof (induction line i bs rule: scan_line.induct)
  case (1 line i)
  then show ?case by simp
next
  case (2 line i b bs)
  show ?case
  proof (cases "MAX_LINE_LEN \<le> length line \<or> b = LF")
    case True
    then show ?thesis using 2 by (auto split: if_splits)
  next
    case False
    then have IH: "line' = (line @ [b]) @ take (n - (i + 1)) bs" "i + 1 \<le> n"
      "n \<le> i + 1 + length bs" "\<not> found \<longrightarrow> n = i + 1 + length bs \<and> LF \<notin> set bs"
      using 2 by auto
    moreover have "n - i = Suc (n - (i + 1))" using IH(2) by simp
    ultimately show ?thesis using False by auto
  qed
qed

text \<open>The outer loop. Every further round has a longer line, which the limit bounds.\<close>

function read_line_loop :: "('s, 'x) reader_scheme \<Rightarrow> bytes \<Rightarrow> 's \<Rightarrow> bytes res \<times> 's" where
  "read_line_loop R line s =
    (case fill_buf R s of
       (Ok buf, s1) \<Rightarrow>
         if buf = [] then
           (if line = [] then (Err (redis_err ''unexpected EOF''), s1) else (Ok line, s1))
         else (case scan_line line 0 buf of
                 None \<Rightarrow> (Err (redis_err ''line too long''), s1)
               | Some (line', consume_len, found_newline) \<Rightarrow>
                   if found_newline then (Ok (strip_line line'), consume R consume_len s1)
                   else read_line_loop R line' (consume R consume_len s1))
     | (Err e, s1) \<Rightarrow> (Err e, s1)
     | (Panic, s1) \<Rightarrow> (Panic, s1)
     | (Pending, s1) \<Rightarrow> (Pending, s1)
     | (Hang, s1) \<Rightarrow> (Hang, s1))"
  by pat_completeness auto
termination
proof (relation "measure (\<lambda>(R, line, s). MAX_LINE_LEN - length line)", goal_cases)
  case 1
  show ?case by simp
next
  case (2 R line s r s1 buf scanned line' rest n found)
  then have "scan_line line 0 buf = Some (line', n, found)" and "buf \<noteq> []" by simp_all
  from scan_line_grows [OF this(1)] this(2) show ?case by (cases buf) auto
qed

declare read_line_loop.simps [simp del]

definition read_line :: "('s, 'x) reader_scheme \<Rightarrow> 's \<Rightarrow> bytes res \<times> 's" where
  "read_line R s = read_line_loop R [] s"

section \<open>Reading a fixed number of bytes\<close>

function read_n_loop :: "('s, 'x) reader_scheme \<Rightarrow> nat \<Rightarrow> bytes \<Rightarrow> 's \<Rightarrow> bytes res \<times> 's" where
  "read_n_loop R n got s =
    (if length got < n then
       (case read_some R (n - length got) s of
          (Ok m, s1) \<Rightarrow>
            if m = [] then (Err (redis_err ''unexpected EOF''), s1)
            else read_n_loop R n (got @ m) s1
        | (Err e, s1) \<Rightarrow> (Err e, s1)
        | (Panic, s1) \<Rightarrow> (Panic, s1)
        | (Pending, s1) \<Rightarrow> (Pending, s1)
        | (Hang, s1) \<Rightarrow> (Hang, s1))
     else (Ok got, s))"
  by pat_completeness auto
termination
  by (relation "measure (\<lambda>(R, n, got, s). n - length got)") (auto simp: neq_Nil_conv)

declare read_n_loop.simps [simp del]

text \<open>The buffer \<open>vec![0u8; n]\<close> is reserved before anything is read.\<close>

definition read_n :: "env \<Rightarrow> ('s, 'x) reader_scheme \<Rightarrow> nat \<Rightarrow> 's \<Rightarrow> bytes res \<times> 's" where
  "read_n E R n s =
    and_then (with_capacity E 1 n, s) (\<lambda>_ s. read_n_loop R n [] s)"

section \<open>Facts about stripping and scanning\<close>

lemma strip_line_crlf [simp]: "strip_line (l @ CRLF) = l"
  by (simp add: strip_line_def ends_with_def)

lemma strip_line_lf: "l = [] \<or> last l \<noteq> CR \<Longrightarrow> strip_line (l @ [LF]) = l"
proof (cases l rule: rev_cases)
  case Nil
  then show ?thesis by (simp add: strip_line_def ends_with_def)
next
  case (snoc k c)
  moreover assume "l = [] \<or> last l \<noteq> CR"
  ultimately show ?thesis by (simp add: strip_line_def ends_with_def)
qed

lemma scan_line_no_newline:
  "LF \<notin> set bs \<Longrightarrow> length line + length bs \<le> MAX_LINE_LEN \<Longrightarrow>
    scan_line line i bs = Some (line @ bs, i + length bs, False)"
  by (induction bs arbitrary: line i) auto

lemma scan_line_newline:
  "LF \<notin> set p \<Longrightarrow> length line + length p < MAX_LINE_LEN \<Longrightarrow>
    scan_line line i (p @ LF # q) = Some (line @ p @ [LF], i + length p + 1, True)"
  by (induction p arbitrary: line i) auto

lemma scan_line_too_long:
  "LF \<notin> set p \<Longrightarrow> length line + length p = MAX_LINE_LEN \<Longrightarrow> scan_line line i (p @ x # q) = None"
  by (induction p arbitrary: line i) auto

lemma scan_line_found:
  "scan_line line i bs = Some (line', n, True) \<Longrightarrow>
    \<exists>p q. bs = p @ LF # q \<and> LF \<notin> set p \<and> length line + length p < MAX_LINE_LEN \<and>
      line' = line @ p @ [LF] \<and> n = i + length p + 1"
proof (induction line i bs rule: scan_line.induct)
  case (1 line i)
  then show ?case by simp
next
  case (2 line i b bs)
  show ?case
  proof (cases "b = LF")
    case True
    then have "b # bs = [] @ LF # bs" by simp
    then show ?thesis using 2(2) True by (intro exI [of _ "[]"] exI [of _ bs]) (simp split: if_splits)
  next
    case False
    then obtain p q where "bs = p @ LF # q" "LF \<notin> set p" "length (line @ [b]) + length p < MAX_LINE_LEN"
      "line' = (line @ [b]) @ p @ [LF]" "n = i + 1 + length p + 1"
      using 2 by (fastforce split: if_splits)
    then show ?thesis using False by (intro exI [of _ "b # p"] exI [of _ q]) auto
  qed
qed

section \<open>One round of each loop\<close>

text \<open>Every way a round of the line loop can go, as a case rule.\<close>

lemma read_line_loop_round:
  assumes "read_line_loop R line s = (r, t)"
  obtains
    (eof) "fill_buf R s = (Ok [], t)"
      "r = (if line = [] then Err (redis_err ''unexpected EOF'') else Ok line)"
  | (too_long) buf where "fill_buf R s = (Ok buf, t)" "buf \<noteq> []" "scan_line line 0 buf = None"
      "r = Err (redis_err ''line too long'')"
  | (found) buf u line' n where "fill_buf R s = (Ok buf, u)" "buf \<noteq> []"
      "scan_line line 0 buf = Some (line', n, True)" "r = Ok (strip_line line')" "t = consume R n u"
  | (more) buf u line' n where "fill_buf R s = (Ok buf, u)" "buf \<noteq> []"
      "scan_line line 0 buf = Some (line', n, False)" "read_line_loop R line' (consume R n u) = (r, t)"
  | (fails) "fill_buf R s = (r, t)" "\<not> is_ok r"
proof -
  obtain f u where f: "fill_buf R s = (f, u)" by fastforce
  show thesis
  proof (cases f)
    case (Ok buf)
    show thesis
    proof (cases "buf = []")
      case True
      then have "t = u \<and> r = (if line = [] then Err (redis_err ''unexpected EOF'') else Ok line)"
        using assms f Ok by (subst (asm) read_line_loop.simps) (auto split: if_splits)
      then show thesis using eof f Ok True by simp
    next
      case False
      show thesis
      proof (cases "scan_line line 0 buf")
        case None
        then have "t = u \<and> r = Err (redis_err ''line too long'')"
          using assms f Ok False by (subst (asm) read_line_loop.simps) auto
        then show thesis using too_long f Ok False None by simp
      next
        case (Some a)
        obtain line' n nl where a: "a = (line', n, nl)" by (cases a) auto
        have step: "if nl then t = consume R n u \<and> r = Ok (strip_line line')
            else read_line_loop R line' (consume R n u) = (r, t)"
          using assms f Ok False Some a by (subst (asm) read_line_loop.simps) (auto split: if_splits)
        show thesis
        proof (cases nl)
          case True
          then show thesis using found [of buf u line' n] step f Ok False Some a by auto
        next
          case no: False
          then show thesis using more [of buf u line' n] step f Ok False Some a by auto
        qed
      qed
    qed
  qed (use assms f fails in \<open>(subst (asm) read_line_loop.simps, force)+\<close>)
qed

lemma read_n_loop_round:
  assumes "read_n_loop R n got s = (r, t)"
  obtains
    (enough) "n \<le> length got" "r = Ok got" "t = s"
  | (eof) "length got < n" "read_some R (n - length got) s = (Ok [], t)"
      "r = Err (redis_err ''unexpected EOF'')"
  | (more) m u where "length got < n" "read_some R (n - length got) s = (Ok m, u)" "m \<noteq> []"
      "read_n_loop R n (got @ m) u = (r, t)"
  | (fails) "length got < n" "read_some R (n - length got) s = (r, t)" "\<not> is_ok r"
proof (cases "length got < n")
  case False
  then show thesis using assms enough by (subst (asm) read_n_loop.simps) auto
next
  case True
  obtain f u where f: "read_some R (n - length got) s = (f, u)" by fastforce
  show thesis
  proof (cases f)
    case (Ok m)
    show thesis
    proof (cases "m = []")
      case True
      then have "t = u \<and> r = Err (redis_err ''unexpected EOF'')"
        using assms f Ok \<open>length got < n\<close> by (subst (asm) read_n_loop.simps) auto
      then show thesis using eof f Ok True \<open>length got < n\<close> by simp
    next
      case False
      then have "read_n_loop R n (got @ m) u = (r, t)"
        using assms f Ok True by (subst (asm) read_n_loop.simps) auto
      then show thesis using more f Ok True False by simp
    qed
  qed (use assms f fails True in \<open>(subst (asm) read_n_loop.simps, force)+\<close>)
qed

end
