(* ===== verification/Reader_Laws.thy ===== *)
theory Reader_Laws imports Reader begin

text \<open>
  The contract of a buffered reader as a locale, and what it gives for \<open>read_line\<close> and \<open>read_n\<close>:
  both deliver exactly the next bytes of the stream whatever pieces it arrives in, and lose none.
\<close>

section \<open>The contract\<close>

text \<open>
  \<open>due s\<close> is how many bytes of the backlog arrive before the running deadline (or ever, if there is
  none); the laws say that reading succeeds while some are left and that end of file means there
  is nothing more to come.
\<close>

locale buf_reader =
  fixes R :: "('s, 'x) reader_scheme" and due :: "'s \<Rightarrow> nat"
  assumes due_le: "due s \<le> length (backlog R s)"
    and fill_keeps: "fill_buf R s = (r, t) \<Longrightarrow> backlog R t = backlog R s \<and> due t = due s"
    and fill_ready: "0 < due s \<Longrightarrow> \<exists>b t. fill_buf R s = (Ok b, t) \<and> b \<noteq> []"
    and fill_prefix:
      "fill_buf R s = (Ok b, t) \<Longrightarrow> (\<exists>r. backlog R s = b @ r) \<and> length b \<le> due s"
    and fill_eof: "fill_buf R s = (Ok [], t) \<Longrightarrow> backlog R s = []"
    and fill_fails: "fill_buf R s = (r, t) \<Longrightarrow> r \<noteq> Panic \<and> r \<noteq> Hang \<and> (\<forall>e. r = Err e \<longrightarrow> (\<exists>x. e = EIo x))"
    and consume_drops:
      "fill_buf R s = (Ok b, t) \<Longrightarrow> n \<le> length b \<Longrightarrow>
        backlog R (consume R n t) = drop n (backlog R t) \<and> due (consume R n t) = due t - n"
    and read_ready: "0 < n \<Longrightarrow> 0 < due s \<Longrightarrow> \<exists>b t. read_some R n s = (Ok b, t) \<and> b \<noteq> []"
    and read_delivers:
      "0 < n \<Longrightarrow> read_some R n s = (Ok b, t) \<Longrightarrow>
        backlog R s = b @ backlog R t \<and> length b \<le> n \<and> length b \<le> due s \<and> due t = due s - length b"
    and read_eof: "0 < n \<Longrightarrow> read_some R n s = (Ok [], t) \<Longrightarrow> backlog R s = []"
    and read_fails:
      "0 < n \<Longrightarrow> read_some R n s = (r, t) \<Longrightarrow>
        r \<noteq> Panic \<and> r \<noteq> Hang \<and> (\<forall>e. r = Err e \<longrightarrow> (\<exists>x. e = EIo x)) \<and>
        (\<not> is_ok r \<longrightarrow> backlog R t = backlog R s \<and> due t = due s)"
begin

text \<open>What is left of the stream is a suffix of what there was, and a strict one.\<close>

definition reaches :: "'s \<Rightarrow> 's \<Rightarrow> bool" where
  "reaches s t \<longleftrightarrow> (\<exists>p. backlog R s = p @ backlog R t)"

definition advances :: "'s \<Rightarrow> 's \<Rightarrow> bool" where
  "advances s t \<longleftrightarrow> (\<exists>p. backlog R s = p @ backlog R t \<and> p \<noteq> [])"

lemma reaches_refl [simp]: "reaches s s"
  by (simp add: reaches_def)

lemma reaches_trans [trans]: "reaches s t \<Longrightarrow> reaches t u \<Longrightarrow> reaches s u"
  unfolding reaches_def by (metis append.assoc)

lemma advances_reaches [trans]: "advances s t \<Longrightarrow> reaches t u \<Longrightarrow> advances s u"
  unfolding advances_def reaches_def by (metis append.assoc append_is_Nil_conv)

lemma advances_imp_reaches: "advances s t \<Longrightarrow> reaches s t"
  unfolding advances_def reaches_def by blast

lemma advances_shorter: "advances s t \<Longrightarrow> length (backlog R t) < length (backlog R s)"
  by (auto simp: advances_def)

lemma reaches_shorter: "reaches s t \<Longrightarrow> length (backlog R t) \<le> length (backlog R s)"
  by (auto simp: reaches_def)

text \<open>One round of the line loop, on a reader that still delivers.\<close>

lemma read_line_loop_ok:
  assumes "backlog R s = l @ LF # rest" "LF \<notin> set l"
    "length line + length l < MAX_LINE_LEN" "length l < due s"
  shows "\<exists>t. read_line_loop R line s = (Ok (strip_line (line @ l @ [LF])), t) \<and>
    backlog R t = rest \<and> due t = due s - (length l + 1)"
  using assms
proof (induction "length l" arbitrary: l line s rule: less_induct)
  case less
  obtain b u where f: "fill_buf R s = (Ok b, u)" "b \<noteq> []"
    using fill_ready [of s] less.prems(4) by auto
  have u: "backlog R u = backlog R s" "due u = due s" using fill_keeps [OF f(1)] by auto
  obtain r where r: "l @ LF # rest = b @ r" using fill_prefix [OF f(1)] less.prems(1) by auto
  have c: "backlog R (consume R n u) = drop n (l @ LF # rest) \<and> due (consume R n u) = due s - n"
    if "n \<le> length b" for n
    using consume_drops [OF f(1) that] u less.prems(1) by simp
  show ?case
  proof (cases "length b \<le> length l")
    case True
    define l2 where "l2 = drop (length b) l"
    have "b = take (length b) (l @ LF # rest)" using r by simp
    then have l: "l = b @ l2" using True l2_def by (metis append_take_drop_id take_append diff_is_0_eq take_0 append_Nil2)
    have scan: "scan_line line 0 b = Some (line @ b, length b, False)"
      using scan_line_no_newline [of b line 0] less.prems(2,3) l by simp
    have "length l2 < length l" using l f(2) by simp
    moreover have "backlog R (consume R (length b) u) = l2 @ LF # rest"
      and d: "due (consume R (length b) u) = due s - length b"
      using c [of "length b"] l by simp_all
    moreover have "length l2 < due (consume R (length b) u)"
      using less.prems(4) l d by simp
    ultimately obtain t where
      "read_line_loop R (line @ b) (consume R (length b) u) = (Ok (strip_line ((line @ b) @ l2 @ [LF])), t)"
      "backlog R t = rest" "due t = due s - length b - (length l2 + 1)"
      using less.hyps [of l2 "consume R (length b) u" "line @ b"] less.prems(2,3) l d by auto
    then show ?thesis
      using f scan l by (subst read_line_loop.simps) auto
  next
    case False
    then obtain q where b: "b = l @ LF # q"
      using r by (auto simp: append_eq_append_conv2 Cons_eq_append_conv)
    have scan: "scan_line line 0 b = Some (line @ l @ [LF], length l + 1, True)"
      using scan_line_newline [of l line 0 q] less.prems(2,3) b by simp
    have "length l + 1 \<le> length b" using b by simp
    then show ?thesis
      using f scan c [of "length l + 1"] by (subst read_line_loop.simps) auto
  qed
qed

lemma read_line_ok:
  assumes "backlog R s = l @ LF # rest" "LF \<notin> set l" "length l < MAX_LINE_LEN" "length l < due s"
  shows "\<exists>t. read_line R s = (Ok (strip_line (l @ [LF])), t) \<and> backlog R t = rest \<and>
    due t = due s - (length l + 1)"
  using read_line_loop_ok [of s l rest "[]"] assms by (simp add: read_line_def)

text \<open>A line that goes beyond the limit is an error, wherever the pieces end.\<close>

lemma read_line_loop_too_long:
  assumes "backlog R s = l @ x # rest" "LF \<notin> set l"
    "length line + length l = MAX_LINE_LEN" "length l < due s"
  shows "\<exists>t. read_line_loop R line s = (Err (redis_err ''line too long''), t) \<and> reaches s t"
  using assms
proof (induction "length l" arbitrary: l line s rule: less_induct)
  case less
  obtain b u where f: "fill_buf R s = (Ok b, u)" "b \<noteq> []"
    using fill_ready [of s] less.prems(4) by auto
  have u: "backlog R u = backlog R s" "due u = due s" using fill_keeps [OF f(1)] by auto
  obtain r where r: "l @ x # rest = b @ r" using fill_prefix [OF f(1)] less.prems(1) by auto
  show ?case
  proof (cases "length b \<le> length l")
    case True
    define l2 where "l2 = drop (length b) l"
    define v where "v = consume R (length b) u"
    have l: "l = b @ l2" using r True unfolding l2_def by (metis append_eq_append_conv_if append_take_drop_id)
    have v: "backlog R v = l2 @ x # rest" "due v = due s - length b"
      using consume_drops [OF f(1), of "length b"] u less.prems(1) l by (simp_all add: v_def)
    have scan: "scan_line line 0 b = Some (line @ b, length b, False)"
      using scan_line_no_newline [of b line 0] less.prems(2,3) l by simp
    have "length l2 < length l" "length l2 < due v" using less.prems(4) l f(2) v(2) by simp_all
    then obtain t where t: "read_line_loop R (line @ b) v = (Err (redis_err ''line too long''), t)" "reaches v t"
      using less.hyps [of l2 v "line @ b"] less.prems(2,3) l v(1) by auto
    have "reaches s v" using v(1) less.prems(1) l by (simp add: reaches_def)
    then show ?thesis
      using f scan t by (subst read_line_loop.simps) (auto simp: v_def intro: reaches_trans)
  next
    case False
    then obtain y q where "b = l @ y # q"
      using r by (auto simp: append_eq_append_conv2 Cons_eq_append_conv)
    then have "scan_line line 0 b = None" using scan_line_too_long [OF less.prems(2,3)] by simp
    moreover have "reaches s u" using u(1) by (simp add: reaches_def)
    ultimately show ?thesis using f by (subst read_line_loop.simps) auto
  qed
qed

lemma read_line_too_long:
  assumes "backlog R s = l @ x # rest" "LF \<notin> set l" "length l = MAX_LINE_LEN" "MAX_LINE_LEN < due s"
  shows "\<exists>t. read_line R s = (Err (redis_err ''line too long''), t) \<and> reaches s t"
  using read_line_loop_too_long [of s l x rest "[]"] assms by (simp add: read_line_def)

text \<open>\<open>read_n\<close> delivers exactly the next \<open>n\<close> bytes.\<close>

lemma read_n_loop_ok:
  assumes "length got \<le> n" "n - length got \<le> due s"
  shows "\<exists>t. read_n_loop R n got s = (Ok (got @ take (n - length got) (backlog R s)), t) \<and>
    backlog R t = drop (n - length got) (backlog R s) \<and> due t = due s - (n - length got)"
  using assms
proof (induction "n - length got" arbitrary: got s rule: less_induct)
  case less
  show ?case
  proof (cases "length got < n")
    case False
    then show ?thesis using less.prems by (subst read_n_loop.simps) simp
  next
    case True
    define k where "k = n - length got"
    have k: "0 < k" "k \<le> due s" using True less.prems k_def by auto
    obtain b u where f: "read_some R k s = (Ok b, u)" "b \<noteq> []"
      using read_ready [of k s] k by auto
    have d: "backlog R s = b @ backlog R u" "length b \<le> k" "due u = due s - length b"
      using read_delivers [OF k(1) f(1)] by auto
    define j where "j = k - length b"
    have j: "n - length (got @ b) = j" "j < k" "length (got @ b) \<le> n" "j \<le> due u"
      using f(2) d k k_def j_def True by (auto simp: neq_Nil_conv)
    obtain t where t: "read_n_loop R n (got @ b) u = (Ok ((got @ b) @ take j (backlog R u)), t)"
      "backlog R t = drop j (backlog R u)" "due t = due u - j"
      using less.hyps [of "got @ b" u] j k_def by auto
    have split: "take k (backlog R s) = b @ take j (backlog R u)"
      "drop k (backlog R s) = drop j (backlog R u)" "due u - j = due s - k"
      using d j_def by simp_all
    have "read_n_loop R n got s = read_n_loop R n (got @ b) u"
      using True f k_def by (subst read_n_loop.simps) simp
    then show ?thesis using t split k_def by simp
  qed
qed

text \<open>
  What the loops do to the stream on every outcome: they take a prefix of it, and a line that is
  returned took at least one byte.
\<close>

lemma fill_step:
  assumes "fill_buf R s = (Ok b, u)" "n \<le> length b" "0 < n"
    "\<exists>p. backlog R (consume R n u) = p @ backlog R t"
  shows "\<exists>p. backlog R s = p @ backlog R t \<and> p \<noteq> []"
proof -
  obtain p where p: "drop n (backlog R s) = p @ backlog R t"
    using assms fill_keeps [OF assms(1)] consume_drops [OF assms(1,2)] by auto
  then have "backlog R s = (take n (backlog R s) @ p) @ backlog R t"
    by (metis append.assoc append_take_drop_id)
  moreover have "take n (backlog R s) \<noteq> []" using fill_prefix [OF assms(1)] assms(2,3) by auto
  ultimately show ?thesis by blast
qed

lemma read_line_loop_facts:
  "read_line_loop R line s = (r, t) \<Longrightarrow>
    r \<noteq> Panic \<and> r \<noteq> Hang \<and> r \<noteq> Err ENil \<and>
    (\<exists>p. backlog R s = p @ backlog R t \<and> (is_ok r \<longrightarrow> p \<noteq> [] \<or> line \<noteq> []))"
proof (induction "MAX_LINE_LEN - length line" arbitrary: line s rule: less_induct)
  case less
  from less.prems show ?case
  proof (cases rule: read_line_loop_round)
    case eof
    then show ?thesis using fill_keeps [of s "Ok []" t] by auto
  next
    case (too_long buf)
    then show ?thesis using fill_keeps [of s "Ok buf" t] by auto
  next
    case (found buf u line' n)
    have "0 < n" "n \<le> length buf" using scan_line_grows [OF found(3)] found(2) by auto
    then show ?thesis using fill_step [OF found(1), of n t] found(4,5) by auto
  next
    case (more buf u line' n)
    have g: "0 < n" "n \<le> length buf" "length line < length line'" "length line < MAX_LINE_LEN"
      using scan_line_grows [OF more(3)] more(2) by auto
    then have "MAX_LINE_LEN - length line' < MAX_LINE_LEN - length line" by simp
    from less.hyps [OF this more(4)] show ?thesis using fill_step [OF more(1) g(2,1), of t] by blast
  next
    case fails
    then show ?thesis using fill_keeps [OF fails(1)] fill_fails [OF fails(1)] by auto
  qed
qed

lemma read_line_consumes:
  "read_line R s = (r, t) \<Longrightarrow> reaches s t \<and> (is_ok r \<longrightarrow> advances s t)"
  using read_line_loop_facts [of "[]" s r t]
  by (auto simp: read_line_def reaches_def advances_def)

lemma read_line_total: "read_line R s = (r, t) \<Longrightarrow> r \<noteq> Panic \<and> r \<noteq> Hang \<and> r \<noteq> Err ENil"
  using read_line_loop_facts [of "[]" s r t] by (auto simp: read_line_def)

lemma read_n_loop_facts:
  "read_n_loop R n got s = (r, t) \<Longrightarrow> length got \<le> n \<Longrightarrow>
    r \<noteq> Panic \<and> r \<noteq> Hang \<and> r \<noteq> Err ENil \<and>
    (\<exists>p. backlog R s = p @ backlog R t \<and> (\<forall>bs. r = Ok bs \<longrightarrow> bs = got @ p \<and> length bs = n))"
proof (induction "n - length got" arbitrary: got s rule: less_induct)
  case less
  from less.prems(1) show ?case
  proof (cases rule: read_n_loop_round)
    case enough
    then show ?thesis using less.prems(2) by auto
  next
    case eof
    then show ?thesis using read_delivers [of "n - length got" s "[]" t] by auto
  next
    case (more m u)
    have d: "backlog R s = m @ backlog R u" "length m \<le> n - length got"
      using read_delivers [OF _ more(2)] more(1) by auto
    have "n - length (got @ m) < n - length got" "length (got @ m) \<le> n"
      using more(1,3) d(2) by (auto simp: neq_Nil_conv)
    from less.hyps [OF this(1) more(4) this(2)] show ?thesis
      using d(1) by auto
  next
    case fails
    then show ?thesis using read_fails [OF _ fails(2)] by auto
  qed
qed

lemma read_n_facts:
  assumes "read_n E R n s = (r, t)"
  shows "r \<noteq> Hang \<and> r \<noteq> Err ENil \<and> (\<exists>p. backlog R s = p @ backlog R t \<and> (\<forall>bs. r = Ok bs \<longrightarrow> bs = p \<and> length bs = n))"
  using assms with_capacity_cases [of E 1 n] read_n_loop_facts [of n "[]" s r t]
  by (auto simp: read_n_def)

lemma read_n_reaches: "read_n E R n s = (r, t) \<Longrightarrow> r \<noteq> Hang \<and> reaches s t"
  using read_n_facts unfolding reaches_def by blast

lemma read_n_ok:
  assumes "can_reserve E n" "n \<le> due s"
  shows "\<exists>t. read_n E R n s = (Ok (take n (backlog R s)), t) \<and>
    backlog R t = drop n (backlog R s) \<and> due t = due s - n"
  using read_n_loop_ok [of "[]" n s] assms by (simp add: read_n_def with_capacity_def)

end

section \<open>The stream as one piece\<close>

text \<open>
  The simplest lawful reader: all the bytes are there at once, and after them the peer stays silent.
  \<open>Parser_Laws\<close> reduces every other reader to this one.
\<close>

definition byte_reader :: "bytes reader" where
  "byte_reader =
    \<lparr>fill_buf = (\<lambda>bs. (if bs = [] then Pending else Ok bs, bs)),
     consume = drop,
     read_some = (\<lambda>n bs. if bs = [] then (Pending, bs) else (Ok (take n bs), drop n bs)),
     backlog = (\<lambda>bs. bs)\<rparr>"

lemma byte_reader_simps [simp]:
  "fill_buf byte_reader bs = (if bs = [] then Pending else Ok bs, bs)"
  "consume byte_reader n bs = drop n bs"
  "read_some byte_reader n bs = (if bs = [] then (Pending, bs) else (Ok (take n bs), drop n bs))"
  "backlog byte_reader bs = bs"
  by (simp_all add: byte_reader_def)

interpretation whole: buf_reader byte_reader length
  by unfold_locales (auto split: if_splits)

text \<open>On it, a line is returned exactly when a newline comes within the limit.\<close>

lemma read_line_bytes_Ok:
  assumes "read_line byte_reader bs = (Ok x, bs')"
  shows "\<exists>l. bs = l @ LF # bs' \<and> LF \<notin> set l \<and> length l < MAX_LINE_LEN \<and> x = strip_line (l @ [LF])"
proof -
  have "read_line_loop byte_reader [] bs = (Ok x, bs')" using assms by (simp add: read_line_def)
  then show ?thesis
  proof (cases rule: read_line_loop_round)
    case (found buf u line' n)
    then have b: "buf = bs" "u = bs" by (auto split: if_splits)
    from scan_line_found [OF found(3)] obtain p q where
      "buf = p @ LF # q" "LF \<notin> set p" "length p < MAX_LINE_LEN" "line' = p @ [LF]" "n = length p + 1"
      by auto
    then show ?thesis using found(4,5) b by auto
  next
    case (more buf u line' n)
    then have "consume byte_reader n u = []"
      using scan_line_grows [OF more(3)] by (auto split: if_splits)
    then have "read_line_loop byte_reader line' [] = (Ok x, bs')" using more(4) by simp
    then show ?thesis by (subst (asm) read_line_loop.simps) simp
  qed (auto split: if_splits)
qed

lemma read_line_bytes_Err:
  assumes "read_line byte_reader bs = (Err e, bs')"
  shows "e = redis_err ''line too long''"
proof -
  have "read_line_loop byte_reader [] bs = (Err e, bs')" using assms by (simp add: read_line_def)
  then show ?thesis
  proof (cases rule: read_line_loop_round)
    case (more buf u line' n)
    then have "consume byte_reader n u = []"
      using scan_line_grows [OF more(3)] by (auto split: if_splits)
    then have "read_line_loop byte_reader line' [] = (Err e, bs')" using more(4) by simp
    then show ?thesis by (subst (asm) read_line_loop.simps) simp
  qed (auto split: if_splits)
qed

lemma read_line_bytes:
  "LF \<notin> set l \<Longrightarrow> length l < MAX_LINE_LEN \<Longrightarrow>
    read_line byte_reader (l @ LF # rest) = (Ok (strip_line (l @ [LF])), rest)"
  using whole.read_line_ok [of "l @ LF # rest" l rest] by auto

lemma read_n_bytes_settled:
  assumes "read_n E byte_reader n bs = (r, bs')" "returned r"
  shows "r = Ok (take n bs) \<and> bs' = drop n bs \<and> n \<le> length bs \<and> can_reserve E n"
proof -
  have c: "can_reserve E n" and l: "read_n_loop byte_reader n [] bs = (r, bs')"
    using assms by (auto simp: read_n_def with_capacity_def split: if_splits)
  have "n \<le> length bs"
  proof (rule ccontr)
    assume a: "\<not> n \<le> length bs"
    then have "read_n_loop byte_reader n bs [] = (Pending, [])"
      by (subst read_n_loop.simps) simp
    then have "read_n_loop byte_reader n [] bs = (Pending, [])"
      using a by (subst read_n_loop.simps) auto
    then show False using l assms(2) by simp
  qed
  then show ?thesis using whole.read_n_ok [OF c, of bs] assms(1) c by auto
qed

end
