(* ===== verification/F64.thy ===== *)
theory F64 imports Utf8 begin

text \<open>
  The floating-point numbers of the crate: scores and increments are \<open>f64\<close>, which it only parses
  (\<open>str::parse\<close>), prints (\<open>{}\<close>) and classifies. Both conversions are modelled exactly: parsing
  rounds the decimal to the nearest double, ties to even, and printing gives the shortest decimal
  that reads back as the same double.
\<close>

section \<open>Doubles\<close>

text \<open>
  A finite double is a sign, a mantissa and an exponent of two; the sign and payload of a NaN are
  left out, since nothing here observes them.
\<close>

datatype f64 = F_NaN | F_Inf bool | F_Fin bool nat int

definition is_nan :: "f64 \<Rightarrow> bool" where
  "is_nan f \<longleftrightarrow> f = F_NaN"

fun is_infinite :: "f64 \<Rightarrow> bool" where
  "is_infinite (F_Inf neg) = True"
| "is_infinite _ = False"

fun is_sign_positive :: "f64 \<Rightarrow> bool" where
  "is_sign_positive F_NaN = True"
| "is_sign_positive (F_Inf neg) = (\<not> neg)"
| "is_sign_positive (F_Fin neg m e) = (\<not> neg)"

text \<open>The pairs of mantissa and exponent that binary64 has, each number once.\<close>

definition canonical :: "nat \<Rightarrow> int \<Rightarrow> bool" where
  "canonical m e \<longleftrightarrow> m < 2 ^ 53 \<and> - 1074 \<le> e \<and> e \<le> 971 \<and> (2 ^ 52 \<le> m \<or> e = - 1074)"

fun wf_f64 :: "f64 \<Rightarrow> bool" where
  "wf_f64 (F_Fin neg m e) = canonical m e"
| "wf_f64 _ = True"

section \<open>Rounding\<close>

text \<open>\<open>n / d\<close> to the nearest integer, ties to even.\<close>

definition round_even :: "nat \<Rightarrow> nat \<Rightarrow> nat" where
  "round_even n d =
    (let q = n div d; r = n mod d in
     if 2 * r < d \<or> 2 * r = d \<and> even q then q else q + 1)"

fun bit_len :: "nat \<Rightarrow> nat" where
  "bit_len n = (if n = 0 then 0 else Suc (bit_len (n div 2)))"

declare bit_len.simps [simp del]

text \<open>\<open>n * b ^ e\<close> for an exponent of either sign, as a fraction.\<close>

definition scale_num :: "nat \<Rightarrow> nat \<Rightarrow> int \<Rightarrow> nat" where
  "scale_num b n e = n * b ^ nat e"

definition scale_den :: "nat \<Rightarrow> nat \<Rightarrow> int \<Rightarrow> nat" where
  "scale_den b d e = d * b ^ nat (- e)"

text \<open>The largest power of two not above \<open>n / d\<close>.\<close>

definition ratio_log2 :: "nat \<Rightarrow> nat \<Rightarrow> int" where
  "ratio_log2 n d =
    (let e = int (bit_len n) - int (bit_len d) in
     if scale_num 2 d e \<le> scale_den 2 n e then e else e - 1)"

definition f64_of_ratio :: "bool \<Rightarrow> nat \<Rightarrow> nat \<Rightarrow> f64" where
  "f64_of_ratio neg n d =
    (let p = max (ratio_log2 n d - 52) (- 1074);
         m = round_even (scale_den 2 n p) (scale_num 2 d p);
         (m1, p1) = (if m = 2 ^ 53 then (2 ^ 52, p + 1) else (m, p))
     in if 971 < p1 then F_Inf neg else F_Fin neg m1 p1)"

text \<open>
  The double nearest to \<open>c * 10 ^ x\<close>. Numbers far outside the range are decided by their number of
  digits, so that the powers of ten stay small.
\<close>

definition f64_of_decimal :: "bool \<Rightarrow> nat \<Rightarrow> int \<Rightarrow> f64" where
  "f64_of_decimal neg c x =
    (let top = int (length (show_nat c)) + x in
     if c = 0 \<or> top < - 330 then F_Fin neg 0 (- 1074)
     else if 310 < top then F_Inf neg
     else f64_of_ratio neg (scale_num 10 c x) (scale_den 10 1 x))"

section \<open>Parsing\<close>

text \<open>The digits of the exponent stop counting once the value has reached 65536.\<close>

fun exponent_digits :: "nat \<Rightarrow> string \<Rightarrow> nat option" where
  "exponent_digits n [] = Some n"
| "exponent_digits n (c # cs) =
    (case digit_val c of
       None \<Rightarrow> None
     | Some d \<Rightarrow> exponent_digits (if n < 65536 then 10 * n + d else n) cs)"

definition parse_exponent :: "string \<Rightarrow> int option" where
  "parse_exponent s =
    (let neg = starts_with s ''-'';
         ds = (if neg \<or> starts_with s ''+'' then tl s else s) in
     if ds = [] then None
     else map_option (\<lambda>n. if neg then - int n else int n) (exponent_digits 0 ds))"

text \<open>The digits before and after the point as one number, and the power of ten it is scaled by.\<close>

definition parse_number :: "string \<Rightarrow> (nat \<times> int) option" where
  "parse_number s =
    (let whole = takeWhile is_digit s;
         r = dropWhile is_digit s;
         (frac, r2) = (if starts_with r ''.''
                       then (takeWhile is_digit (tl r), dropWhile is_digit (tl r)) else ([], r))
     in if whole = [] \<and> frac = [] then None
        else case digits_val 0 (whole @ frac) of
               None \<Rightarrow> None
             | Some c \<Rightarrow>
                 (case r2 of
                    [] \<Rightarrow> Some (c, - int (length frac))
                  | ch # r3 \<Rightarrow>
                      if ch = CHR ''e'' \<or> ch = CHR ''E''
                      then map_option (\<lambda>x. (c, x - int (length frac))) (parse_exponent r3)
                      else None))"

definition parse_inf_nan :: "bool \<Rightarrow> string \<Rightarrow> f64 option" where
  "parse_inf_nan neg s =
    (if eq_ignore_ascii_case s ''inf'' \<or> eq_ignore_ascii_case s ''infinity'' then Some (F_Inf neg)
     else if eq_ignore_ascii_case s ''nan'' then Some F_NaN
     else None)"

definition parse_f64 :: "string \<Rightarrow> f64 option" where
  "parse_f64 s =
    (let neg = starts_with s ''-'';
         t = (if neg \<or> starts_with s ''+'' then tl s else s) in
     if t = [] then None
     else case parse_number t of
            Some (c, x) \<Rightarrow> Some (f64_of_decimal neg c x)
          | None \<Rightarrow> parse_inf_nan neg t)"

section \<open>Printing\<close>

text \<open>The exponent \<open>k\<close> with \<open>10 ^ (k - 1) \<le> n / d < 10 ^ k\<close>.\<close>

definition ratio_log10 :: "nat \<Rightarrow> nat \<Rightarrow> int" where
  "ratio_log10 n d =
    (if d \<le> n then int (length (show_nat (n div d)))
     else 1 - int (length (show_nat ((d - 1) div n))))"

text \<open>
  The candidates with \<open>k\<close> digits are the two decimals around the number; the nearer of those that
  read back is taken, the upper one on a tie.
\<close>

definition candidate :: "nat \<Rightarrow> int \<Rightarrow> nat \<Rightarrow> (nat \<times> int) option" where
  "candidate m e k =
    (let n = scale_num 2 m e; d = scale_den 2 1 e;
         x = ratio_log10 n d - int k;
         n1 = scale_den 10 n x; d1 = scale_num 10 d x;
         lo = n1 div d1;
         down = (f64_of_decimal False lo x = F_Fin False m e);
         up = (f64_of_decimal False (lo + 1) x = F_Fin False m e)
     in if up \<and> (\<not> down \<or> d1 \<le> 2 * (n1 mod d1)) then Some (lo + 1, x)
        else if down then Some (lo, x) else None)"

text \<open>Seventeen digits always suffice.\<close>

fun shortest :: "nat \<Rightarrow> int \<Rightarrow> nat list \<Rightarrow> nat \<times> int" where
  "shortest m e [] = (0, 0)"
| "shortest m e (k # ks) = (case candidate m e k of Some c \<Rightarrow> c | None \<Rightarrow> shortest m e ks)"

function strip_zeros :: "nat \<Rightarrow> int \<Rightarrow> nat \<times> int" where
  "strip_zeros c x = (if 0 < c \<and> c mod 10 = 0 then strip_zeros (c div 10) (x + 1) else (c, x))"
  by pat_completeness auto
termination by (relation "measure fst") auto

declare strip_zeros.simps [simp del]

definition render_decimal :: "nat \<Rightarrow> int \<Rightarrow> string" where
  "render_decimal c x =
    (let ds = show_nat c; point = int (length ds) + x in
     if 0 \<le> x then ds @ replicate (nat x) (CHR ''0'')
     else if 0 < point then take (nat point) ds @ ''.'' @ drop (nat point) ds
     else ''0.'' @ replicate (nat (- point)) (CHR ''0'') @ ds)"

fun show_f64 :: "f64 \<Rightarrow> string" where
  "show_f64 F_NaN = ''NaN''"
| "show_f64 (F_Inf neg) = (if neg then ''-inf'' else ''inf'')"
| "show_f64 (F_Fin neg m e) =
    (if neg then ''-'' else []) @
    (if m = 0 then ''0''
     else case shortest m e [1..<18] of (c, x) \<Rightarrow>
            case strip_zeros c x of (c, x) \<Rightarrow> render_decimal c x)"

text \<open>\<open>format_float\<close> of \<open>src/client.rs\<close>.\<close>

definition format_float :: "f64 \<Rightarrow> string" where
  "format_float f =
    (if is_nan f then ''nan''
     else if is_infinite f then (if is_sign_positive f then ''inf'' else ''-inf'')
     else let s = show_f64 f in
          if CHR ''.'' \<in> set s then trim_end_char (CHR ''.'') (trim_end_char (CHR ''0'') s)
          else s)"

end
