(* ===== verification/Parser.thy ===== *)
theory Parser imports Reader_Laws F64 begin

text \<open>
  The reply parser of \<open>src/parser.rs\<close>: the type \<open>Value\<close>, \<open>parse_reply\<close> with the loop over the
  elements of an array, and the helpers that read arrays of one type straight from the reader.

  \<open>parse_reply\<close> and \<open>parse_slice_inner\<close> call each other, once per level of nesting. The recursion
  carries a fuel that bounds the depth; the public functions start it above the number of bytes
  left in the reader, and \<open>Parser_Laws\<close> proves that this is always enough.
\<close>

section \<open>Replies\<close>

datatype Value =
    VNil
  | VStatus string
  | VInt int
  | VBulkString string
  | VArray "Value list"

text \<open>Well-formed replies: integers in the range of \<open>i64\<close>, strings of valid UTF-8.\<close>

fun wf_Value :: "Value \<Rightarrow> bool" where
  "wf_Value VNil = True"
| "wf_Value (VStatus s) = utf8_valid s"
| "wf_Value (VInt i) = in_i64 i"
| "wf_Value (VBulkString s) = utf8_valid s"
| "wf_Value (VArray vs) = (\<forall>v \<in> set vs. wf_Value v)"

text \<open>The debug form of a byte vector, for the message of the last branch of the dispatch.\<close>

fun join :: "string \<Rightarrow> string list \<Rightarrow> string" where
  "join sep [] = []"
| "join sep [x] = x"
| "join sep (x # y # xs) = x @ sep @ join sep (y # xs)"

definition debug_bytes :: "bytes \<Rightarrow> string" where
  "debug_bytes bs = ''['' @ join '', '' (map (\<lambda>b. show_nat (of_char b)) bs) @ '']''"

section \<open>The parser\<close>

text \<open>Addition of \<open>usize\<close>: it panics on overflow or wraps, as the build says.\<close>

definition add_usize :: "env \<Rightarrow> nat \<Rightarrow> nat \<Rightarrow> nat res" where
  "add_usize E a b =
    (if in_u64 (a + b) then Ok (a + b)
     else if overflow_checks E then Panic else Ok ((a + b) mod 2 ^ 64))"

text \<open>The branches of the dispatch on the first byte, given the rest of the line.\<close>

definition parse_integer :: "bytes \<Rightarrow> Value res" where
  "parse_integer rest =
    bind_outcome (ok_or (redis_err ''invalid integer'') (from_utf8 rest)) (\<lambda>text.
    map_ok VInt (ok_or (redis_err ''invalid integer'') (parse_i64 text)))"

definition parse_bulk ::
  "env \<Rightarrow> ('s, 'x) reader_scheme \<Rightarrow> bytes \<Rightarrow> 's \<Rightarrow> Value res \<times> 's" where
  "parse_bulk E R rest s =
    (if rest = ''-1'' then (Err ENil, s)
     else and_then (ok_or (redis_err ''invalid length'') (from_utf8 rest), s) (\<lambda>text s.
          and_then (ok_or (redis_err ''invalid length'') (parse_usize text), s) (\<lambda>reply_len s.
          and_then (add_usize E reply_len 2, s) (\<lambda>n s.
          and_then (read_n E R n s) (\<lambda>data s.
            (map_ok VBulkString
               (ok_or (redis_err ''invalid utf8'') (from_utf8 (take reply_len data))), s))))))"

definition array_length :: "bytes \<Rightarrow> int res" where
  "array_length rest =
    (if rest = ''-1'' then Err ENil
     else bind_outcome (ok_or (redis_err ''invalid array length'') (from_utf8 rest)) (\<lambda>text.
          ok_or (redis_err ''invalid array length'') (parse_i64 text)))"

function (sequential)
  parse_reply_f :: "env \<Rightarrow> ('s, 'x) reader_scheme \<Rightarrow> nat \<Rightarrow> 's \<Rightarrow> Value res \<times> 's" and
  parse_slice_f ::
    "env \<Rightarrow> ('s, 'x) reader_scheme \<Rightarrow> nat \<Rightarrow> nat \<Rightarrow> Value list \<Rightarrow> 's \<Rightarrow> Value res \<times> 's" where
  "parse_reply_f E R 0 s = (Hang, s)"
| "parse_reply_f E R (Suc k) s =
    and_then (read_line R s) (\<lambda>line s.
      case line of
        [] \<Rightarrow> (Err (redis_err ''empty reply''), s)
      | c # rest \<Rightarrow>
          if c = CHR ''-'' then (Err (ERedis (RedisError (utf8_lossy rest))), s)
          else if c = CHR ''+'' then (Ok (VStatus (utf8_lossy rest)), s)
          else if c = CHR '':'' then (parse_integer rest, s)
          else if c = CHR ''$'' then parse_bulk E R rest s
          else if c = CHR ''*'' then
            and_then (array_length rest, s) (\<lambda>n s.
            and_then (with_capacity E size_of_Value (as_u64 n), s) (\<lambda>_ s.
              parse_slice_f E R k (nat n) [] s))
          else (Err (redis_err (''can't parse '' @ debug_bytes line)), s))"
| "parse_slice_f E R k n vals s =
    (if n = 0 then (Ok (VArray vals), s)
     else case parse_reply_f E R k s of
            (Ok v, s1) \<Rightarrow> parse_slice_f E R k (n - 1) (vals @ [v]) s1
          | (Err e, s1) \<Rightarrow>
              if e = ENil then parse_slice_f E R k (n - 1) (vals @ [VNil]) s1
              else (Err e, s1)
          | (Panic, s1) \<Rightarrow> (Panic, s1)
          | (Pending, s1) \<Rightarrow> (Pending, s1)
          | (Hang, s1) \<Rightarrow> (Hang, s1))"
  by pat_completeness auto
termination
  by (relation "measures [\<lambda>x. case x of Inl (E, R, k, s) \<Rightarrow> 2 * k | Inr (E, R, k, n, vals, s) \<Rightarrow> 2 * k + 1,
                          \<lambda>x. case x of Inl y \<Rightarrow> 0 | Inr (E, R, k, n, vals, s) \<Rightarrow> n]") auto

declare parse_reply_f.simps(2) [simp del] parse_slice_f.simps [simp del]

definition parse_reply :: "env \<Rightarrow> ('s, 'x) reader_scheme \<Rightarrow> 's \<Rightarrow> Value res \<times> 's" where
  "parse_reply E R s = parse_reply_f E R (Suc (length (backlog R s))) s"

definition parse_slice_loop ::
  "env \<Rightarrow> ('s, 'x) reader_scheme \<Rightarrow> nat \<Rightarrow> Value list \<Rightarrow> 's \<Rightarrow> Value res \<times> 's" where
  "parse_slice_loop E R n vals s = parse_slice_f E R (Suc (length (backlog R s))) n vals s"

definition parse_slice_inner ::
  "env \<Rightarrow> ('s, 'x) reader_scheme \<Rightarrow> int \<Rightarrow> 's \<Rightarrow> Value res \<times> 's" where
  "parse_slice_inner E R n s =
    and_then (with_capacity E size_of_Value (as_u64 n), s) (\<lambda>_ s.
      parse_slice_loop E R (nat n) [] s)"

section \<open>Arrays of one type\<close>

text \<open>Both text forms of a reply count as a string wherever the crate expects one.\<close>

fun value_str :: "Value \<Rightarrow> string option" where
  "value_str (VBulkString s) = Some s"
| "value_str (VStatus s) = Some s"
| "value_str _ = None"

text \<open>The loop of the helpers: \<open>n\<close> times, read one element and add it to what is built.\<close>

fun parse_loop ::
  "('s \<Rightarrow> 'a res \<times> 's) \<Rightarrow> ('b \<Rightarrow> 'a \<Rightarrow> 'b) \<Rightarrow> nat \<Rightarrow> 'b \<Rightarrow> 's \<Rightarrow> 'b res \<times> 's" where
  "parse_loop item add 0 acc s = (Ok acc, s)"
| "parse_loop item add (Suc n) acc s =
    and_then (item s) (\<lambda>a s. parse_loop item add n (add acc a) s)"

definition parse_str_item :: "env \<Rightarrow> ('s, 'x) reader_scheme \<Rightarrow> 's \<Rightarrow> string res \<times> 's" where
  "parse_str_item E R s =
    and_then (parse_reply E R s) (\<lambda>v s.
      (ok_or (redis_err ''expected string'') (value_str v), s))"

definition parse_string_slice ::
  "env \<Rightarrow> ('s, 'x) reader_scheme \<Rightarrow> int \<Rightarrow> 's \<Rightarrow> string list res \<times> 's" where
  "parse_string_slice E R n s =
    and_then (with_capacity E size_of_String (as_u64 n), s) (\<lambda>_ s.
      parse_loop (parse_str_item E R) (\<lambda>vals x. vals @ [x]) (nat n) [] s)"

definition parse_bool_item :: "env \<Rightarrow> ('s, 'x) reader_scheme \<Rightarrow> 's \<Rightarrow> bool res \<times> 's" where
  "parse_bool_item E R s =
    and_then (parse_reply E R s) (\<lambda>v s.
      case v of VInt i \<Rightarrow> (Ok (i = 1), s) | _ \<Rightarrow> (Err (redis_err ''expected integer''), s))"

definition parse_bool_slice ::
  "env \<Rightarrow> ('s, 'x) reader_scheme \<Rightarrow> int \<Rightarrow> 's \<Rightarrow> bool list res \<times> 's" where
  "parse_bool_slice E R n s =
    and_then (with_capacity E 1 (as_u64 n), s) (\<lambda>_ s.
      parse_loop (parse_bool_item E R) (\<lambda>vals x. vals @ [x]) (nat n) [] s)"

text \<open>A key and a value: both are read before either is checked.\<close>

definition parse_pair_item ::
  "env \<Rightarrow> ('s, 'x) reader_scheme \<Rightarrow> 's \<Rightarrow> (string \<times> string) res \<times> 's" where
  "parse_pair_item E R s =
    and_then (parse_reply E R s) (\<lambda>k s.
    and_then (parse_reply E R s) (\<lambda>v s.
    and_then (ok_or (redis_err ''expected string'') (value_str k), s) (\<lambda>key s.
    and_then (ok_or (redis_err ''expected string'') (value_str v), s) (\<lambda>val s.
      (Ok (key, val), s)))))"

definition map_capacity :: "env \<Rightarrow> nat \<Rightarrow> unit res" where
  "map_capacity E n = (if can_reserve E (max n (table_bytes E n)) then Ok () else Panic)"

definition parse_string_map ::
  "env \<Rightarrow> ('s, 'x) reader_scheme \<Rightarrow> int \<Rightarrow> 's \<Rightarrow> (string \<rightharpoonup> string) res \<times> 's" where
  "parse_string_map E R n s =
    and_then (map_capacity E (as_u64 (half_i64 n)), s) (\<lambda>_ s.
      parse_loop (parse_pair_item E R) (\<lambda>m (k, v). m(k \<mapsto> v)) (nat (half_i64 n)) Map.empty s)"

text \<open>Members and scores; the score is parsed after both strings have been checked.\<close>

record Z =
  score :: f64
  zmember :: string

definition parse_z_item :: "env \<Rightarrow> ('s, 'x) reader_scheme \<Rightarrow> 's \<Rightarrow> Z res \<times> 's" where
  "parse_z_item E R s =
    and_then (parse_pair_item E R s) (\<lambda>(m, score_str) s.
      (map_ok (\<lambda>f. \<lparr>score = f, zmember = m\<rparr>)
         (ok_or (redis_err ''invalid float'') (parse_f64 score_str)), s))"

definition parse_z_slice :: "env \<Rightarrow> ('s, 'x) reader_scheme \<Rightarrow> int \<Rightarrow> 's \<Rightarrow> Z list res \<times> 's" where
  "parse_z_slice E R n s =
    and_then (with_capacity E size_of_Z (as_u64 (half_i64 n)), s) (\<lambda>_ s.
      parse_loop (parse_z_item E R) (\<lambda>zz z. zz @ [z]) (nat (half_i64 n)) [] s)"

text \<open>\<open>parse_scan_reply\<close>: the cursor and the keys of a SCAN reply.\<close>

definition scan_cursor :: "Value \<Rightarrow> int" where
  "scan_cursor v =
    (case value_str v of
       Some s \<Rightarrow> (case parse_i64 s of Some i \<Rightarrow> i | None \<Rightarrow> 0)
     | None \<Rightarrow> (case v of VInt i \<Rightarrow> i | _ \<Rightarrow> 0))"

definition scan_keys :: "Value \<Rightarrow> string list" where
  "scan_keys v = (case v of VArray items \<Rightarrow> List.map_filter value_str items | _ \<Rightarrow> [])"

definition parse_scan_reply ::
  "env \<Rightarrow> ('s, 'x) reader_scheme \<Rightarrow> 's \<Rightarrow> (int \<times> string list) res \<times> 's" where
  "parse_scan_reply E R s =
    and_then (parse_reply E R s) (\<lambda>v s.
      case v of
        VArray arr \<Rightarrow>
          if length arr < 2 then (Err (redis_err ''invalid scan reply''), s)
          else (Ok (scan_cursor (arr ! 0), scan_keys (arr ! 1)), s)
      | _ \<Rightarrow> (Err (redis_err ''expected array''), s))"

end
