(* ===== verification/Parser_Laws.thy ===== *)
theory Parser_Laws imports Parser begin

text \<open>
  What holds of the parser for every lawful reader: it consumes at least a line per reply, so the
  fuel is enough and the functions satisfy the recursion equations of the source; and its result
  depends only on the bytes of the stream, not on the pieces they come in.
\<close>

section \<open>One level of the recursion\<close>

text \<open>What follows once the line has been read, with the array branch as a parameter.\<close>

definition dispatch ::
  "env \<Rightarrow> ('s, 'x) reader_scheme \<Rightarrow> (nat \<Rightarrow> 's \<Rightarrow> Value res \<times> 's) \<Rightarrow> bytes \<Rightarrow> 's \<Rightarrow> Value res \<times> 's" where
  "dispatch E R slice line s =
     (case line of
        [] \<Rightarrow> (Err (redis_err ''empty reply''), s)
      | c # rest \<Rightarrow>
          if c = CHR ''-'' then (Err (ERedis (RedisError (utf8_lossy rest))), s)
          else if c = CHR ''+'' then (Ok (VStatus (utf8_lossy rest)), s)
          else if c = CHR '':'' then (parse_integer rest, s)
          else if c = CHR ''$'' then parse_bulk E R rest s
          else if c = CHR ''*'' then
            and_then (array_length rest, s) (\<lambda>n s.
            and_then (with_capacity E size_of_Value (as_u64 n), s) (\<lambda>_ s. slice (nat n) s))
          else (Err (redis_err (''can't parse '' @ debug_bytes line)), s))"

lemma parse_reply_f_Suc:
  "parse_reply_f E R (Suc k) s =
    and_then (read_line R s) (dispatch E R (\<lambda>n. parse_slice_f E R k n []))"
  by (simp add: parse_reply_f.simps dispatch_def [abs_def])

lemma parse_slice_f_0 [simp]: "parse_slice_f E R k 0 vals s = (Ok (VArray vals), s)"
  by (simp add: parse_slice_f.simps)

lemma parse_slice_f_Suc:
  "parse_slice_f E R k (Suc n) vals s =
    (case parse_reply_f E R k s of
       (Ok v, s1) \<Rightarrow> parse_slice_f E R k n (vals @ [v]) s1
     | (Err e, s1) \<Rightarrow>
         if e = ENil then parse_slice_f E R k n (vals @ [VNil]) s1 else (Err e, s1)
     | (Panic, s1) \<Rightarrow> (Panic, s1)
     | (Pending, s1) \<Rightarrow> (Pending, s1)
     | (Hang, s1) \<Rightarrow> (Hang, s1))"
  by (simp add: parse_slice_f.simps [of E R k "Suc n"] split: prod.split outcome.split)

lemma parse_integer_returned: "returned (parse_integer rest)" "parse_integer rest \<noteq> Err ENil"
  by (auto simp: parse_integer_def ok_or_def split: option.splits)

lemma parse_integer_wf: "parse_integer rest = Ok v \<Longrightarrow> wf_Value v"
  by (auto simp: parse_integer_def bind_outcome_Ok_iff map_ok_Ok_iff intro: parse_i64_in_i64)

lemma array_length_returned: "returned (array_length rest)"
  by (auto simp: array_length_def ok_or_def split: option.splits)

lemma array_length_in_i64: "array_length rest = Ok n \<Longrightarrow> in_i64 n"
  by (auto simp: array_length_def bind_outcome_Ok_iff split: if_splits intro: parse_i64_in_i64)

lemma add_usize_never_hangs: "add_usize E a b \<noteq> Hang" "add_usize E a b \<noteq> Err e" "add_usize E a b \<noteq> Pending"
  by (simp_all add: add_usize_def)

text \<open>The result of a bulk string, and what is well-formed about replies.\<close>

lemma parse_bulk_wf: "parse_bulk E R rest s = (Ok v, t) \<Longrightarrow> wf_Value v"
  by (auto simp: parse_bulk_def and_then_Ok_iff map_ok_Ok_iff split: if_splits)

lemma dispatch_wf:
  assumes "dispatch E R slice line s = (Ok v, t)"
    and "\<And>n s v t. slice n s = (Ok v, t) \<Longrightarrow> wf_Value v"
  shows "wf_Value v"
  using assms by (auto simp: dispatch_def and_then_Ok_iff utf8_valid_lossy
      intro: parse_bulk_wf parse_integer_wf split: list.splits if_splits)

lemma parse_f_wf:
  "parse_reply_f E R k s = (Ok v, t) \<Longrightarrow> wf_Value v"
  "parse_slice_f E R k n vals s = (Ok w, u) \<Longrightarrow> \<forall>v \<in> set vals. wf_Value v \<Longrightarrow> wf_Value w"
proof (induction k arbitrary: s v t n vals w u)
  case 0
  {
    case 1
    then show ?case by simp
  next
    case 2
    then show ?case by (cases n) (auto simp: parse_slice_f_Suc)
  }
next
  case (Suc k)
  have reply: "wf_Value v" if "parse_reply_f E R (Suc k) s = (Ok v, t)" for s v t
    using that unfolding parse_reply_f_Suc
    by (elim and_then_OkE, elim dispatch_wf) (rule Suc(2), auto)
  {
    case 1
    then show ?case by (rule reply)
  next
    case 2
    then show ?case
    proof (induction n arbitrary: vals s)
      case 0
      then show ?case by auto
    next
      case (Suc n)
      obtain f x where f: "parse_reply_f E R (Suc k) s = (f, x)" by fastforce
      show ?case
      proof (cases f)
        case (Ok a)
        then have "parse_slice_f E R (Suc k) n (vals @ [a]) x = (Ok w, u)"
          using Suc.prems(1) f by (simp add: parse_slice_f_Suc)
        then show ?thesis using Suc.IH Suc.prems(2) reply f Ok by auto
      next
        case (Err e)
        then have "e = ENil" "parse_slice_f E R (Suc k) n (vals @ [VNil]) x = (Ok w, u)"
          using Suc.prems(1) f by (auto simp: parse_slice_f_Suc split: if_splits)
        then show ?thesis using Suc.IH Suc.prems(2) by auto
      qed (use Suc.prems(1) f in \<open>simp_all add: parse_slice_f_Suc\<close>)
    qed
  }
qed

text \<open>Every way one element of an array can go.\<close>

lemma parse_slice_round:
  assumes "parse_slice_f E R k (Suc n) vals s = (r, t)"
  obtains (item) v u where "parse_reply_f E R k s = (Ok v, u)"
      "parse_slice_f E R k n (vals @ [v]) u = (r, t)"
  | (null) u where "parse_reply_f E R k s = (Err ENil, u)"
      "parse_slice_f E R k n (vals @ [VNil]) u = (r, t)"
  | (fails) "parse_reply_f E R k s = (r, t)" "\<not> is_ok r" "r \<noteq> Err ENil"
proof -
  obtain f u where f: "parse_reply_f E R k s = (f, u)" by fastforce
  show thesis
  proof (cases f)
    case (Err e)
    then show thesis
      using assms f null [of u] fails by (cases "e = ENil") (auto simp: parse_slice_f_Suc)
  qed (use assms f item fails in \<open>auto simp: parse_slice_f_Suc\<close>)
qed

section \<open>Progress\<close>

context buf_reader begin

lemma parse_bulk_facts:
  assumes "parse_bulk E R rest s = (r, t)"
  shows "r \<noteq> Hang \<and> reaches s t"
proof (cases "rest = ''-1''")
  case True
  then show ?thesis using assms by (auto simp: parse_bulk_def)
next
  case False
  then have "and_then (ok_or (redis_err ''invalid length'') (from_utf8 rest), s) (\<lambda>text s.
          and_then (ok_or (redis_err ''invalid length'') (parse_usize text), s) (\<lambda>reply_len s.
          and_then (add_usize E reply_len 2, s) (\<lambda>n s.
          and_then (read_n E R n s) (\<lambda>data s.
            (map_ok VBulkString
               (ok_or (redis_err ''invalid utf8'') (from_utf8 (take reply_len data))), s))))) = (r, t)"
    using assms by (simp add: parse_bulk_def)
  then show ?thesis
    by (elim and_then_cases)
      (auto simp: add_usize_never_hangs ok_or_def split: option.splits dest!: read_n_reaches)
qed

text \<open>Either the line starts an array that is read, or the array branch plays no part.\<close>

lemma dispatch_shape:
  obtains (array) n where "\<And>slice. dispatch E R slice line s = slice n s"
  | (other) r t where "\<And>slice. dispatch E R slice line s = (r, t)" "r \<noteq> Hang" "reaches s t"
proof (cases line)
  case Nil
  then show thesis using other [of "Err (redis_err ''empty reply'')" s] by (simp add: dispatch_def)
next
  case (Cons c rest)
  consider "c = CHR ''-''" | "c = CHR ''+''" | "c = CHR '':''" | "c = CHR ''$''" | "c = CHR ''*''"
    | "c \<noteq> CHR ''-''" "c \<noteq> CHR ''+''" "c \<noteq> CHR '':''" "c \<noteq> CHR ''$''" "c \<noteq> CHR ''*''" by blast
  then show thesis
  proof cases
    case 3
    then show thesis
      using other [of "parse_integer rest" s] Cons parse_integer_returned(1) [of rest]
      by (cases "parse_integer rest") (auto simp: dispatch_def)
  next
    case 4
    obtain r t where "parse_bulk E R rest s = (r, t)" by fastforce
    then show thesis using other [of r t] 4 Cons parse_bulk_facts by (simp add: dispatch_def)
  next
    case 5
    show thesis
    proof (cases "array_length rest")
      case (Ok n)
      then show thesis
        using array [of "nat n"] other [of Panic s] 5 Cons with_capacity_cases [of E size_of_Value "as_u64 n"]
        by (auto simp: dispatch_def)
    next
      case (Err e)
      then show thesis using other [of "Err e" s] 5 Cons by (simp add: dispatch_def)
    qed (use array_length_returned [of rest] in simp_all)
  qed (use other Cons in \<open>simp_all add: dispatch_def\<close>)
qed

lemma dispatch_reaches:
  assumes "dispatch E R slice line s = (r, t)"
    and "\<And>n s r t. slice n s = (r, t) \<Longrightarrow> reaches s t"
  shows "reaches s t"
  using assms by (cases rule: dispatch_shape [of E line s]) auto

lemma dispatch_slice_cong:
  "(\<And>n. slice n s = slice' n s) \<Longrightarrow> dispatch E R slice line s = dispatch E R slice' line s"
  by (cases rule: dispatch_shape [of E line s]) auto

lemma dispatch_no_hang:
  "(\<And>n. fst (slice n s) \<noteq> Hang) \<Longrightarrow> fst (dispatch E R slice line s) \<noteq> Hang"
  by (cases rule: dispatch_shape [of E line s]) auto

lemma parse_f_reaches:
  "parse_reply_f E R k s = (r, t) \<Longrightarrow> reaches s t \<and> (is_ok r \<or> r = Err ENil \<longrightarrow> advances s t)"
  "parse_slice_f E R k n vals s = (q, u) \<Longrightarrow> reaches s u"
proof (induction k arbitrary: s r t n vals q u)
  case 0
  {
    case 1
    then show ?case by auto
  next
    case 2
    then show ?case by (cases n) (auto simp: parse_slice_f_Suc)
  }
next
  case (Suc k)
  have reply: "reaches s t \<and> (is_ok r \<or> r = Err ENil \<longrightarrow> advances s t)"
    if "parse_reply_f E R (Suc k) s = (r, t)" for s r t
    using that unfolding parse_reply_f_Suc
  proof (cases rule: and_then_cases)
    case (runs line u)
    have "reaches u t" by (rule dispatch_reaches [OF runs(2)]) (rule Suc(2))
    then show ?thesis
      using read_line_consumes [OF runs(1)] advances_reaches advances_imp_reaches by auto
  next
    case (fails f)
    then show ?thesis using read_line_consumes [OF fails(1)] read_line_total [OF fails(1)] by auto
  qed
  {
    case 1
    then show ?case by (rule reply)
  next
    case 2
    then show ?case
    proof (induction n arbitrary: vals s)
      case 0
      then show ?case by auto
    next
      case (Suc n)
      from Suc.prems show ?case
      proof (cases rule: parse_slice_round)
        case (item v x)
        then show ?thesis using reply Suc.IH reaches_trans by blast
      next
        case (null x)
        then show ?thesis using reply Suc.IH reaches_trans by blast
      next
        case fails
        then show ?thesis using reply by blast
      qed
    qed
  }
qed

text \<open>Fuel above the number of bytes left is enough, and more of it changes nothing.\<close>

lemma parse_f_enough:
  "length (backlog R s) < k \<Longrightarrow> length (backlog R s) < k' \<Longrightarrow>
    parse_reply_f E R k s = parse_reply_f E R k' s \<and> fst (parse_reply_f E R k s) \<noteq> Hang"
  "length (backlog R s) < k \<Longrightarrow> length (backlog R s) < k' \<Longrightarrow>
    parse_slice_f E R k n vals s = parse_slice_f E R k' n vals s \<and>
    fst (parse_slice_f E R k n vals s) \<noteq> Hang"
proof (induction k arbitrary: k' s n vals)
  case 0
  {
    case 1
    then show ?case by simp
  next
    case 2
    then show ?case by simp
  }
next
  case (Suc k)
  have reply: "parse_reply_f E R (Suc k) s = parse_reply_f E R k' s \<and>
      fst (parse_reply_f E R (Suc k) s) \<noteq> Hang"
    if s: "length (backlog R s) < Suc k" "length (backlog R s) < k'" for s k'
  proof -
    obtain j where j: "k' = Suc j" using s by (cases k') auto
    obtain f u where f: "read_line R s = (f, u)" by fastforce
    show ?thesis
    proof (cases f)
      case (Ok line)
      then have "length (backlog R u) < length (backlog R s)"
        using read_line_consumes [OF f] advances_shorter by simp
      then have "length (backlog R u) < k" "length (backlog R u) < j" using s j by auto
      then have sl: "parse_slice_f E R k n [] u = parse_slice_f E R j n [] u \<and>
          fst (parse_slice_f E R k n [] u) \<noteq> Hang" for n
        by (rule Suc(2))
      have "dispatch E R (\<lambda>n. parse_slice_f E R k n []) line u =
          dispatch E R (\<lambda>n. parse_slice_f E R j n []) line u"
        by (rule dispatch_slice_cong) (use sl in blast)
      moreover have "fst (dispatch E R (\<lambda>n. parse_slice_f E R k n []) line u) \<noteq> Hang"
        by (rule dispatch_no_hang) (use sl in blast)
      ultimately show ?thesis using f Ok j by (simp add: parse_reply_f_Suc)
    qed (use f j read_line_total [OF f] in \<open>simp_all add: parse_reply_f_Suc\<close>)
  qed
  {
    case 1
    then show ?case by (rule reply)
  next
    case 2
    then show ?case
    proof (induction n arbitrary: vals s)
      case 0
      then show ?case by simp
    next
      case (Suc n)
      obtain f u where f: "parse_reply_f E R (Suc k) s = (f, u)" by fastforce
      have f': "parse_reply_f E R k' s = (f, u)" "f \<noteq> Hang"
        using reply [OF Suc.prems] f by auto
      have "reaches s u" using parse_f_reaches(1) [OF f] by blast
      then have "length (backlog R u) < Suc k" "length (backlog R u) < k'"
        using reaches_shorter Suc.prems by fastforce+
      note IH = Suc.IH [OF this]
      have IH': "fst (parse_slice_f E R k' n vals u) \<noteq> Hang" for vals using IH [of vals] by metis
      show ?case using f f' IH IH' by (cases f) (simp_all add: parse_slice_f_Suc)
    qed
  }
qed

text \<open>So the public functions always come back, and obey the equations of the source.\<close>

lemma parse_reply_no_hang: "fst (parse_reply E R s) \<noteq> Hang"
  using parse_f_enough(1) [of s "Suc (length (backlog R s))"] by (auto simp: parse_reply_def)

lemma parse_reply_fuel: "length (backlog R s) < k \<Longrightarrow> parse_reply_f E R k s = parse_reply E R s"
  using parse_f_enough(1) [of s k "Suc (length (backlog R s))"] by (auto simp: parse_reply_def)

lemma parse_slice_fuel:
  "length (backlog R s) < k \<Longrightarrow>
    parse_slice_f E R k n vals s = parse_slice_f E R (Suc (length (backlog R s))) n vals s"
  using parse_f_enough(2) [of s k "Suc (length (backlog R s))"] by auto

lemma parse_reply_eq:
  "parse_reply E R s =
    and_then (read_line R s) (dispatch E R (\<lambda>n. parse_slice_loop E R n []))"
proof -
  obtain f u where f: "read_line R s = (f, u)" by fastforce
  show ?thesis
  proof (cases f)
    case (Ok line)
    then have "length (backlog R u) < length (backlog R s)"
      using read_line_consumes [OF f] advances_shorter by simp
    then have "parse_slice_f E R (length (backlog R s)) n [] u =
        parse_slice_f E R (Suc (length (backlog R u))) n [] u" for n
      by (rule parse_slice_fuel)
    then show ?thesis
      using f Ok
      by (simp add: parse_reply_def parse_reply_f_Suc)
        (rule dispatch_slice_cong, simp add: parse_slice_loop_def)
  qed (use f in \<open>simp_all add: parse_reply_def parse_reply_f_Suc\<close>)
qed

lemma parse_slice_loop_0 [simp]: "parse_slice_loop E R 0 vals s = (Ok (VArray vals), s)"
  by (simp add: parse_slice_loop_def)

lemma parse_slice_loop_Suc:
  "parse_slice_loop E R (Suc n) vals s =
    (case parse_reply E R s of
       (Ok v, s1) \<Rightarrow> parse_slice_loop E R n (vals @ [v]) s1
     | (Err e, s1) \<Rightarrow>
         if e = ENil then parse_slice_loop E R n (vals @ [VNil]) s1 else (Err e, s1)
     | (Panic, s1) \<Rightarrow> (Panic, s1)
     | (Pending, s1) \<Rightarrow> (Pending, s1)
     | (Hang, s1) \<Rightarrow> (Hang, s1))"
proof -
  obtain f u where f: "parse_reply E R s = (f, u)" by fastforce
  have "reaches s u" using parse_f_reaches(1) f unfolding parse_reply_def by blast
  then have "length (backlog R u) < Suc (length (backlog R s))" using reaches_shorter by fastforce
  from parse_slice_fuel [OF this] show ?thesis
    using f by (cases f) (auto simp: parse_slice_loop_def parse_slice_f_Suc parse_reply_def [symmetric])
qed

lemma parse_reply_reaches:
  "parse_reply E R s = (r, t) \<Longrightarrow> reaches s t \<and> (is_ok r \<or> r = Err ENil \<longrightarrow> advances s t)"
  unfolding parse_reply_def by (rule parse_f_reaches)

end

section \<open>Only the bytes matter\<close>

text \<open>
  A run over the stream as one piece (\<open>byte_reader\<close>) that settles can be repeated by every lawful
  reader whose bytes up to that point are due, with the same result and the same bytes left.
  A line that is too long is excepted: there the two differ in how much they had consumed.
\<close>

definition settled :: "'a res \<Rightarrow> bool" where
  "settled r \<longleftrightarrow> returned r \<and> r \<noteq> Err (redis_err ''line too long'')"

lemma settled_simps [simp]:
  "settled (Ok a)" "\<not> settled Panic" "\<not> settled Pending" "\<not> settled Hang"
  "settled (Err e) \<longleftrightarrow> e \<noteq> redis_err ''line too long''"
  by (simp_all add: settled_def)

context buf_reader begin

text \<open>The reader holds the bytes \<open>bs\<close>, and all but the last \<open>m\<close> of them are due.\<close>

definition covers :: "nat \<Rightarrow> 's \<Rightarrow> bytes \<Rightarrow> bool" where
  "covers m s bs \<longleftrightarrow> backlog R s = bs \<and> length bs \<le> due s + m"

lemma read_line_sim:
  assumes "read_line byte_reader bs = (r, bs')" "settled r" "covers m s bs" "m \<le> length bs'"
  shows "\<exists>t. read_line R s = (r, t) \<and> covers m t bs'"
proof -
  obtain x where x: "r = Ok x" using assms(1,2) read_line_bytes_Err by (cases r) auto
  obtain l where l: "bs = l @ LF # bs'" "LF \<notin> set l" "length l < MAX_LINE_LEN"
    "x = strip_line (l @ [LF])"
    using read_line_bytes_Ok assms(1) x by blast
  have s: "backlog R s = l @ LF # bs'" "length l < due s"
    using assms(3,4) l(1) by (auto simp: covers_def)
  then obtain t where "read_line R s = (Ok x, t)" "backlog R t = bs'" "due t = due s - (length l + 1)"
    using read_line_ok [OF s(1) l(2,3) s(2)] l(4) by auto
  then show ?thesis using x l(1) assms(3) by (auto simp: covers_def)
qed

lemma read_n_sim:
  assumes "read_n E byte_reader n bs = (r, bs')" "returned r" "covers m s bs" "m \<le> length bs'"
  shows "\<exists>t. read_n E R n s = (r, t) \<and> covers m t bs'"
proof -
  have b: "r = Ok (take n bs)" "bs' = drop n bs" "n \<le> length bs" "can_reserve E n"
    using read_n_bytes_settled [OF assms(1,2)] by auto
  then have "n \<le> due s" using assms(3,4) by (auto simp: covers_def)
  from read_n_ok [OF b(4) this] show ?thesis using b assms(3) by (auto simp: covers_def)
qed

lemma parse_bulk_sim:
  assumes "parse_bulk E byte_reader rest bs = (r, bs')" "settled r" "covers m s bs" "m \<le> length bs'"
  shows "\<exists>t. parse_bulk E R rest s = (r, t) \<and> covers m t bs'"
proof (cases "rest \<noteq> ''-1'' \<and> utf8_valid rest \<and> parse_usize rest \<noteq> None")
  case False
  then show ?thesis
    using assms by (auto simp: parse_bulk_def ok_or_def from_utf8_def split: if_splits option.splits)
next
  case True
  then obtain len where len: "parse_usize rest = Some len" by auto
  have bulk: "parse_bulk E R' rest x =
      and_then (add_usize E len 2, x) (\<lambda>n x. and_then (read_n E R' n x) (\<lambda>data x.
        (map_ok VBulkString (ok_or (redis_err ''invalid utf8'') (from_utf8 (take len data))), x)))"
    for R' :: "('t, 'y) reader_scheme" and x
    using True len by (simp add: parse_bulk_def ok_or_def from_utf8_def)
  show ?thesis
  proof (cases "add_usize E len 2")
    case (Ok n)
    obtain f u where f: "read_n E byte_reader n bs = (f, u)" by fastforce
    show ?thesis
    proof (cases "returned f")
      case True
      then have d: "f = Ok (take n bs)" using read_n_bytes_settled [OF f] by simp
      then have "u = bs'" using assms(1) f Ok by (simp add: bulk)
      then show ?thesis
        using read_n_sim [OF f True assms(3)] assms(1,4) f d Ok by (auto simp: bulk)
    next
      case False
      then show ?thesis using assms(1,2) f Ok by (cases f) (auto simp: bulk)
    qed
  qed (use assms(1,2) add_usize_never_hangs [of E len 2] in \<open>auto simp: bulk\<close>)
qed

lemma dispatch_sim:
  assumes "dispatch E byte_reader sl line bs = (r, bs')" "settled r" "covers m s bs" "m \<le> length bs'"
    and slice: "\<And>n r bs'. sl n bs = (r, bs') \<Longrightarrow> settled r \<Longrightarrow> m \<le> length bs' \<Longrightarrow>
      \<exists>t. sl' n s = (r, t) \<and> covers m t bs'"
  shows "\<exists>t. dispatch E R sl' line s = (r, t) \<and> covers m t bs'"
proof (cases line)
  case Nil
  then show ?thesis using assms by (auto simp: dispatch_def)
next
  case (Cons c rest)
  consider "c = CHR ''$''" | "c = CHR ''*''" | "c \<noteq> CHR ''$''" "c \<noteq> CHR ''*''" by blast
  then show ?thesis
  proof cases
    case 1
    then show ?thesis using assms Cons parse_bulk_sim by (simp add: dispatch_def)
  next
    case 2
    show ?thesis
    proof (cases "array_length rest")
      case (Ok n)
      then show ?thesis
        using assms Cons 2 slice [of "nat n"] with_capacity_cases [of E size_of_Value "as_u64 n"]
        by (auto simp: dispatch_def)
    qed (use assms Cons 2 in \<open>auto simp: dispatch_def\<close>)
  next
    case 3
    then show ?thesis using assms Cons by (auto simp: dispatch_def split: if_splits)
  qed
qed

lemma parse_f_sim:
  "parse_reply_f E byte_reader k bs = (r, bs') \<Longrightarrow> settled r \<Longrightarrow> covers m s bs \<Longrightarrow> m \<le> length bs' \<Longrightarrow>
    \<exists>t. parse_reply_f E R k s = (r, t) \<and> covers m t bs'"
  "parse_slice_f E byte_reader k n vals bs = (r, bs') \<Longrightarrow> settled r \<Longrightarrow> covers m s bs \<Longrightarrow>
    m \<le> length bs' \<Longrightarrow> \<exists>t. parse_slice_f E R k n vals s = (r, t) \<and> covers m t bs'"
proof (induction k arbitrary: bs r bs' s n vals)
  case 0
  {
    case 1
    then show ?case by auto
  next
    case 2
    then show ?case by (cases n) (auto simp: parse_slice_f_Suc)
  }
next
  case (Suc k)
  have reply: "\<exists>t. parse_reply_f E R (Suc k) s = (r, t) \<and> covers m t bs'"
    if eq: "parse_reply_f E byte_reader (Suc k) bs = (r, bs')" and st: "settled r"
      and cv: "covers m s bs" and m: "m \<le> length bs'"
    for bs r bs' s
    using eq [unfolded parse_reply_f_Suc]
  proof (cases rule: and_then_cases)
    case (runs line u)
    have "whole.reaches u bs'"
      by (rule whole.dispatch_reaches [OF runs(2)]) (rule whole.parse_f_reaches(2))
    then have "m \<le> length u" using m whole.reaches_shorter by fastforce
    then obtain t where t: "read_line R s = (Ok line, t)" "covers m t u"
      using read_line_sim [OF runs(1) _ cv] by auto
    have "\<exists>t'. dispatch E R (\<lambda>n. parse_slice_f E R k n []) line t = (r, t') \<and> covers m t' bs'"
      by (rule dispatch_sim [OF runs(2) st t(2) m]) (rule Suc(2) [OF _ _ t(2)])
    then show ?thesis using t(1) by (simp add: parse_reply_f_Suc)
  next
    case (fails f)
    obtain e where e: "r = Err e" using st fails(3) by (cases r) auto
    then have "f = Err e" using fails(5) by simp
    then have "e = redis_err ''line too long''" using fails(1) read_line_bytes_Err by blast
    then show ?thesis using st e by simp
  qed
  {
    case 1
    then show ?case by (rule reply)
  next
    case 2
    then show ?case
    proof (induction n arbitrary: vals bs s)
      case 0
      then show ?case by auto
    next
      case (Suc n)
      have mono: "m \<le> length x" if "parse_slice_f E byte_reader (Suc k) n vs x = (r, bs')" for vs x
        using whole.parse_f_reaches(2) [OF that] whole.reaches_shorter Suc.prems(4) by fastforce
      from Suc.prems(1) show ?case
      proof (cases rule: parse_slice_round)
        case (item v x)
        then obtain t where "parse_reply_f E R (Suc k) s = (Ok v, t)" "covers m t x"
          using reply [OF item(1) _ Suc.prems(3) mono [OF item(2)]] by auto
        then show ?thesis using Suc.IH [OF item(2) Suc.prems(2) _ Suc.prems(4)]
          by (simp add: parse_slice_f_Suc)
      next
        case (null x)
        then obtain t where "parse_reply_f E R (Suc k) s = (Err ENil, t)" "covers m t x"
          using reply [OF null(1) _ Suc.prems(3) mono [OF null(2)]] by auto
        then show ?thesis using Suc.IH [OF null(2) Suc.prems(2) _ Suc.prems(4)]
          by (simp add: parse_slice_f_Suc)
      next
        case fails
        then obtain t where "parse_reply_f E R (Suc k) s = (r, t)" "covers m t bs'"
          using reply [OF fails(1) Suc.prems(2,3,4)] by auto
        then show ?thesis using fails(2,3) Suc.prems(2) by (cases r) (auto simp: parse_slice_f_Suc)
      qed
    qed
  }
qed

text \<open>The refinement, for the public function.\<close>

lemma parse_reply_sim:
  assumes "parse_reply E byte_reader bs = (r, bs')" "settled r" "covers m s bs" "m \<le> length bs'"
  shows "\<exists>t. parse_reply E R s = (r, t) \<and> covers m t bs'"
  using parse_f_sim(1) [of E "Suc (length bs)" bs r bs' m s] assms
  by (auto simp: parse_reply_def covers_def)

end

end
