(* ===== verification/Wire.thy ===== *)
theory Wire imports Parser_Laws begin

text \<open>
  The wire format from the server's side: the encoding of replies as the protocol defines it, and
  the round trips. Whatever a server encodes, the parser returns, and what \<open>append_args\<close> writes for
  a command is itself an array that the same parser reads back.
\<close>

section \<open>The reference encoding of replies\<close>

fun encode_value :: "Value \<Rightarrow> bytes" where
  "encode_value VNil = ''$-1'' @ CRLF"
| "encode_value (VStatus s) = CHR ''+'' # s @ CRLF"
| "encode_value (VInt i) = CHR '':'' # show_int i @ CRLF"
| "encode_value (VBulkString s) = resp_bulk s"
| "encode_value (VArray vs) =
    CHR ''*'' # show_nat (length vs) @ CRLF @ concat (map encode_value vs)"

definition encode_error :: "string \<Rightarrow> bytes" where
  "encode_error msg = CHR ''-'' # msg @ CRLF"

text \<open>What the client can take: one-line texts below the limit, sizes that can be reserved.\<close>

definition line_text :: "string \<Rightarrow> bool" where
  "line_text s \<longleftrightarrow> LF \<notin> set s \<and> length s + 2 < MAX_LINE_LEN"

fun fits :: "env \<Rightarrow> Value \<Rightarrow> bool" where
  "fits E VNil = True"
| "fits E (VStatus s) = (utf8_valid s \<and> line_text s)"
| "fits E (VInt i) = in_i64 i"
| "fits E (VBulkString s) = (utf8_valid s \<and> can_reserve E (length s + 2))"
| "fits E (VArray vs) = (can_reserve E (length vs * 32) \<and> (\<forall>v \<in> set vs. fits E v))"

text \<open>What parsing the encoding of a value returns: a nil on its own is the error \<open>Nil\<close>.\<close>

fun as_result :: "Value \<Rightarrow> Value res" where
  "as_result VNil = Err ENil"
| "as_result v = Ok v"

section \<open>Texts in a line\<close>

lemma length_show_nat: "length (show_nat n) \<le> Suc n"
proof (induction n rule: show_nat.induct)
  case (1 n)
  then show ?case by (cases "n < 10") (auto simp: show_nat_small show_nat_step)
qed

lemma length_show_nat_bound: "n < 10 ^ k \<Longrightarrow> 0 < k \<Longrightarrow> length (show_nat n) \<le> k"
proof (induction k arbitrary: n)
  case 0
  then show ?case by simp
next
  case (Suc k)
  show ?case
  proof (cases "n < 10")
    case True
    then show ?thesis by (simp add: show_nat_small)
  next
    case False
    then have k: "0 < k" using Suc.prems by (cases k) auto
    have "n div 10 < 10 ^ k" using Suc.prems by (simp add: div_less_iff_less_mult mult.commute)
    from Suc.IH [OF this k] show ?thesis using False by (simp add: show_nat_step)
  qed
qed

lemma show_nat_u64_short: "n < 2 ^ 64 \<Longrightarrow> length (show_nat n) \<le> 20"
  by (rule length_show_nat_bound) simp_all

lemma show_int_i64_short: "in_i64 i \<Longrightarrow> length (show_int i) \<le> 21"
proof -
  assume "in_i64 i"
  then have "nat i < 2 ^ 64" "nat (- i) < 2 ^ 64" by (auto simp: in_i64_def)
  from this [THEN show_nat_u64_short] show ?thesis by (simp add: show_int_def)
qed

lemma show_nat_no_newline [simp]: "LF \<notin> set (show_nat n)" "CR \<notin> set (show_nat n)"
  using show_nat_not_special by blast+

lemma show_int_no_newline [simp]: "LF \<notin> set (show_int i)"
  by (simp add: show_int_def)

lemma show_nat_ascii: "\<forall>c \<in> set (show_nat n). of_char c < (128 :: nat)"
  using show_nat_digits [of n] by (auto simp: is_digit_iff)

lemma show_nat_utf8 [simp]: "utf8_valid (show_nat n)"
  by (rule utf8_valid_ascii) (rule show_nat_ascii)

lemma show_int_utf8 [simp]: "utf8_valid (show_int i)"
  by (simp add: show_int_def utf8_valid_ascii_Cons)

lemma parse_i64_show_nat: "n < 2 ^ 63 \<Longrightarrow> parse_i64 (show_nat n) = Some (int n)"
  using parse_i64_show_int [of "int n"] by (simp add: show_int_def in_i64_def)

lemma show_nat_not_minus1 [simp]: "show_nat n \<noteq> ''-1''"
  using show_nat_not_special [of "CHR ''-''" n] by auto

text \<open>A line on the wire, read back.\<close>

lemma read_line_text:
  "LF \<notin> set t \<Longrightarrow> length t + 1 < MAX_LINE_LEN \<Longrightarrow>
    read_line byte_reader (t @ CRLF @ rest) = (Ok t, rest)"
  using read_line_bytes [of "t @ [CR]" rest] strip_line_crlf [of t] by simp

lemma MAX_LINE_LEN_big: "k < 1000 \<Longrightarrow> k < MAX_LINE_LEN"
  by (simp add: MAX_LINE_LEN_def)

section \<open>Round trips\<close>

lemma can_reserve_bounds:
  "can_reserve E n \<Longrightarrow> n < 2 ^ 63"
  by (simp add: can_reserve_def isize_max_def)

lemma parse_bulk_encoded:
  assumes "utf8_valid s" "can_reserve E (length s + 2)"
  shows "parse_bulk E byte_reader (show_nat (length s)) (s @ CRLF @ rest) = (Ok (VBulkString s), rest)"
proof -
  have n: "in_u64 (length s)" "in_u64 (length s + 2)"
    using can_reserve_bounds [OF assms(2)] by (simp_all add: in_u64_def)
  have "read_n E byte_reader (length s + 2) (s @ CRLF @ rest) = (Ok (s @ CRLF), rest)"
    using whole.read_n_ok [OF assms(2), of "s @ CRLF @ rest"] by auto
  then show ?thesis
    using n assms(1) by (simp add: parse_bulk_def parse_usize_show_nat add_usize_def from_utf8_def)
qed

lemma parse_encoded_bulk:
  assumes "utf8_valid s" "can_reserve E (length s + 2)"
  shows "parse_reply E byte_reader (resp_bulk s @ rest) = (Ok (VBulkString s), rest)"
proof -
  have "length (show_nat (length s)) \<le> 20"
    using can_reserve_bounds [OF assms(2)] by (intro show_nat_u64_short) simp
  then have "read_line byte_reader ((CHR ''$'' # show_nat (length s)) @ CRLF @ s @ CRLF @ rest) =
      (Ok (CHR ''$'' # show_nat (length s)), s @ CRLF @ rest)"
    by (intro read_line_text) (simp_all add: MAX_LINE_LEN_def)
  then show ?thesis
    using parse_bulk_encoded [OF assms, of rest]
    by (simp add: whole.parse_reply_eq resp_bulk_def dispatch_def)
qed

text \<open>The header of an array hands over to the loop over its elements.\<close>

lemma parse_array_header:
  assumes "can_reserve E (n * 32)"
  shows "parse_reply E byte_reader (CHR ''*'' # show_nat n @ CRLF @ body) =
    parse_slice_loop E byte_reader n [] body"
proof -
  have n: "n < 2 ^ 63" using can_reserve_bounds [OF assms] by simp
  then have "length (show_nat n) \<le> 20" by (intro show_nat_u64_short) simp
  then have "read_line byte_reader ((CHR ''*'' # show_nat n) @ CRLF @ body) =
      (Ok (CHR ''*'' # show_nat n), body)"
    by (intro read_line_text) (simp_all add: MAX_LINE_LEN_def)
  moreover have "array_length (show_nat n) = Ok (int n)"
    using n by (simp add: array_length_def parse_i64_show_nat from_utf8_def)
  moreover have "as_u64 (int n) = n" using n by (simp add: as_u64_nonneg in_i64_def)
  ultimately show ?thesis
    using assms
    by (simp add: whole.parse_reply_eq dispatch_def with_capacity_def size_of_Value_def)
qed

lemma parse_slice_loop_encoded:
  assumes "\<And>v rest. v \<in> set vs \<Longrightarrow> parse_reply E byte_reader (enc v @ rest) = (as_result v, rest)"
  shows "parse_slice_loop E byte_reader (length vs) vals (concat (map enc vs) @ rest) =
    (Ok (VArray (vals @ vs)), rest)"
  using assms
proof (induction vs arbitrary: vals)
  case Nil
  then show ?case by simp
next
  case (Cons v vs)
  then have "parse_reply E byte_reader (enc v @ concat (map enc vs) @ rest) =
      (as_result v, concat (map enc vs) @ rest)" by simp
  then show ?case
    using Cons by (cases v) (simp_all add: whole.parse_slice_loop_Suc)
qed

text \<open>Every value a server may send is read back, and exactly its bytes are taken.\<close>

lemma parse_encoded:
  "fits E v \<Longrightarrow> parse_reply E byte_reader (encode_value v @ rest) = (as_result v, rest)"
proof (induction v arbitrary: rest)
  case VNil
  have "read_line byte_reader (''$-1'' @ CRLF @ rest) = (Ok ''$-1'', rest)"
    by (rule read_line_text) (simp_all add: MAX_LINE_LEN_def)
  then show ?case by (simp add: whole.parse_reply_eq dispatch_def parse_bulk_def)
next
  case (VStatus s)
  then have "read_line byte_reader ((CHR ''+'' # s) @ CRLF @ rest) = (Ok (CHR ''+'' # s), rest)"
    by (intro read_line_text) (auto simp: line_text_def)
  then show ?case using VStatus by (simp add: whole.parse_reply_eq dispatch_def utf8_lossy_id)
next
  case (VInt i)
  then have "length (show_int i) \<le> 21" by (simp add: show_int_i64_short)
  then have "read_line byte_reader ((CHR '':'' # show_int i) @ CRLF @ rest) =
      (Ok (CHR '':'' # show_int i), rest)"
    by (intro read_line_text) (simp_all add: MAX_LINE_LEN_def)
  then show ?case
    using VInt
    by (simp add: whole.parse_reply_eq dispatch_def parse_integer_def parse_i64_show_int from_utf8_def)
next
  case (VBulkString s)
  then show ?case by (simp add: parse_encoded_bulk)
next
  case (VArray vs)
  then have "\<And>v rest. v \<in> set vs \<Longrightarrow>
      parse_reply E byte_reader (encode_value v @ rest) = (as_result v, rest)" by simp
  from parse_slice_loop_encoded [OF this, of vs "[]" rest] show ?case
    using VArray.prems parse_array_header [of E "length vs" "concat (map encode_value vs) @ rest"]
    by simp
qed

text \<open>A command of the serializer is such an array.\<close>

lemma resp_command_encodes: "resp_command args = encode_value (VArray (map VBulkString args))"
  by (simp add: resp_command_def comp_def)

lemma parse_encoded_error:
  "line_text msg \<Longrightarrow>
    parse_reply E byte_reader (encode_error msg @ rest) = (Err (ERedis (RedisError (utf8_lossy msg))), rest)"
proof -
  assume "line_text msg"
  then have "read_line byte_reader ((CHR ''-'' # msg) @ CRLF @ rest) = (Ok (CHR ''-'' # msg), rest)"
    by (intro read_line_text) (auto simp: line_text_def)
  then show ?thesis by (simp add: whole.parse_reply_eq dispatch_def encode_error_def)
qed

end
