(* ===== verification/Connection.thy ===== *)
theory Connection imports Wire begin

text \<open>
  \<open>src/connection.rs\<close>: a connection wraps a \<open>BufReader<TcpStream>\<close> and two optional timeouts. The
  stream and tokio's timer are outside \<open>src/\<close>: they are the operations of a record, which extends
  the reader the parser uses.
\<close>

section \<open>The transport\<close>

text \<open>
  \<open>io_write_all\<close> and \<open>io_flush\<close> are the writes, \<open>io_buffer\<close> the bytes read from the socket and not
  yet consumed, and \<open>io_arm\<close> sets or clears the time left for the operations that follow: one that
  has not completed by then is left \<open>Pending\<close>, which is how \<open>tokio::time::timeout\<close> is built here.
\<close>

record 't transport = "'t reader" +
  io_write_all :: "bytes \<Rightarrow> 't \<Rightarrow> unit res \<times> 't"
  io_flush :: "'t \<Rightarrow> unit res \<times> 't"
  io_buffer :: "'t \<Rightarrow> bytes"
  io_arm :: "nat option \<Rightarrow> 't \<Rightarrow> 't"

text \<open>
  \<open>timeout(d, op).await\<close>: run the operation with the timer armed; if it is still pending when the
  time is over, the operation is dropped and the result is \<open>Elapsed\<close>.
\<close>

definition io_timeout ::
  "'t transport \<Rightarrow> nat \<Rightarrow> ('t \<Rightarrow> 'a res \<times> 't) \<Rightarrow> 't \<Rightarrow> 'a res \<times> 't" where
  "io_timeout N d op s =
    (case op (io_arm N (Some d) s) of (r, s1) \<Rightarrow>
       (if r = Pending then Err from_elapsed else r, io_arm N None s1))"

section \<open>The connection\<close>

record 't connection =
  stream :: 't
  read_timeout :: "nat option"
  write_timeout :: "nat option"

definition connection_new :: "'t \<Rightarrow> 't connection" where
  "connection_new s = \<lparr>stream = s, read_timeout = None, write_timeout = None\<rparr>"

definition set_read_timeout :: "nat option \<Rightarrow> 't connection \<Rightarrow> 't connection" where
  "set_read_timeout d c = c\<lparr>read_timeout := d\<rparr>"

definition set_write_timeout :: "nat option \<Rightarrow> 't connection \<Rightarrow> 't connection" where
  "set_write_timeout d c = c\<lparr>write_timeout := d\<rparr>"

definition conn_write_all ::
  "'t transport \<Rightarrow> bytes \<Rightarrow> 't connection \<Rightarrow> unit res \<times> 't connection" where
  "conn_write_all N buf c =
    (case (case write_timeout c of
             Some d \<Rightarrow> io_timeout N d (io_write_all N buf) (stream c)
           | None \<Rightarrow> io_write_all N buf (stream c)) of
       (r, s) \<Rightarrow>
         and_then (r, c\<lparr>stream := s\<rparr>) (\<lambda>_ c.
           case io_flush N (stream c) of (r, s) \<Rightarrow> (r, c\<lparr>stream := s\<rparr>)))"

definition conn_parse_reply ::
  "env \<Rightarrow> 't transport \<Rightarrow> 't connection \<Rightarrow> Value res \<times> 't connection" where
  "conn_parse_reply E N c =
    (case (case read_timeout c of
             Some d \<Rightarrow> io_timeout N d (parse_reply E N) (stream c)
           | None \<Rightarrow> parse_reply E N (stream c)) of
       (r, s) \<Rightarrow> (r, c\<lparr>stream := s\<rparr>))"

definition buffer_size :: "'t transport \<Rightarrow> 't connection \<Rightarrow> nat" where
  "buffer_size N c = length (io_buffer N (stream c))"

text \<open>Send one command and wait for its reply: the core of \<open>process_cmd\<close> and of the init callback.\<close>

definition roundtrip ::
  "env \<Rightarrow> 't transport \<Rightarrow> string list \<Rightarrow> 't connection \<Rightarrow> Value res \<times> 't connection" where
  "roundtrip E N args c =
    and_then (conn_write_all N (append_args E [] args) c) (\<lambda>_ c. conn_parse_reply E N c)"

section \<open>Facts\<close>

text \<open>The timeouts of a connection change by the setters only.\<close>

lemma conn_ops_keep_timeouts:
  "conn_write_all N buf c = (r, c') \<Longrightarrow> read_timeout c' = read_timeout c \<and> write_timeout c' = write_timeout c"
  "conn_parse_reply E N c = (q, c') \<Longrightarrow> read_timeout c' = read_timeout c \<and> write_timeout c' = write_timeout c"
  by (auto simp: conn_write_all_def conn_parse_reply_def split: option.splits prod.splits
      elim!: and_then_cases)

text \<open>With a timeout set, no operation stays pending.\<close>

lemma io_timeout_not_pending: "io_timeout N d op s = (r, t) \<Longrightarrow> r \<noteq> Pending"
  by (auto simp: io_timeout_def split: prod.splits if_splits)

lemma conn_parse_reply_timeout_not_pending:
  "read_timeout c = Some d \<Longrightarrow> conn_parse_reply E N c = (r, c') \<Longrightarrow> r \<noteq> Pending"
  using io_timeout_not_pending by (fastforce simp: conn_parse_reply_def split: prod.splits)

end
