(* ===== verification/Tcp.thy ===== *)
theory Tcp imports Connection begin

text \<open>
  A transport to run the model on: a TCP connection whose peer follows a script, read through a
  buffer of the capacity \<open>Connection::new\<close> gives it. It stands for the environment: the theorems
  about the crate hold for every script, and it provides the interface \<open>buf_reader\<close>.
\<close>

section \<open>The state\<close>

text \<open>
  \<open>inbound\<close> lists what arrives, each with the delay after the event before it, and each piece as one
  read of the socket can return it; the list's end is silence. \<open>wplan\<close> lists how the socket takes
  writes; its end means that everything else is taken at once. \<open>server\<close> is the peer: given the bytes
  it had received before and the new ones, the events it adds to \<open>inbound\<close>.
\<close>

datatype net_event = Data bytes | Eof | Reset string

datatype write_event = Accept nat nat | Refuse string | Stuck

record tcp =
  rbuf :: bytes
  inbound :: "(nat \<times> net_event) list"
  deadline :: "nat option"
  outbound :: bytes
  wplan :: "write_event list"
  server :: "bytes \<Rightarrow> bytes \<Rightarrow> (nat \<times> net_event) list"

definition BUF_CAPACITY :: nat where
  "BUF_CAPACITY = 16 * 1024"

fun late :: "nat option \<Rightarrow> nat \<Rightarrow> bool" where
  "late None d = False"
| "late (Some k) d = (k < d)"

fun spend :: "nat option \<Rightarrow> nat \<Rightarrow> nat option" where
  "spend None d = None"
| "spend (Some k) d = Some (k - d)"

section \<open>Reading\<close>

text \<open>One read of the socket into a buffer of \<open>cap\<close> bytes.\<close>

fun sock_read ::
  "nat \<Rightarrow> nat option \<Rightarrow> (nat \<times> net_event) list \<Rightarrow> bytes res \<times> nat option \<times> (nat \<times> net_event) list" where
  "sock_read cap k [] = (Pending, k, [])"
| "sock_read cap k ((d, ev) # rest) =
    (if late k d then (Pending, Some 0, (d - the k, ev) # rest)
     else case ev of
            Data bs \<Rightarrow>
              if bs = [] then sock_read cap (spend k d) rest
              else (Ok (take cap bs), spend k d,
                    if length bs \<le> cap then rest else (0, Data (drop cap bs)) # rest)
          | Eof \<Rightarrow> (Ok [], spend k d, (0, Eof) # rest)
          | Reset msg \<Rightarrow> (Err (from_io msg), spend k d, (0, Reset msg) # rest))"

fun stream_bytes :: "(nat \<times> net_event) list \<Rightarrow> bytes" where
  "stream_bytes [] = []"
| "stream_bytes ((d, Data bs) # rest) = bs @ stream_bytes rest"
| "stream_bytes ((d, Eof) # rest) = []"
| "stream_bytes ((d, Reset msg) # rest) = []"

fun due_bytes :: "nat option \<Rightarrow> (nat \<times> net_event) list \<Rightarrow> nat" where
  "due_bytes k [] = 0"
| "due_bytes k ((d, ev) # rest) =
    (if late k d then 0
     else case ev of Data bs \<Rightarrow> length bs + due_bytes (spend k d) rest | _ \<Rightarrow> 0)"

definition tcp_fill :: "tcp \<Rightarrow> bytes res \<times> tcp" where
  "tcp_fill t =
    (if rbuf t \<noteq> [] then (Ok (rbuf t), t)
     else case sock_read BUF_CAPACITY (deadline t) (inbound t) of
            (r, k, evs) \<Rightarrow>
              (r, t\<lparr>rbuf := (case r of Ok bs \<Rightarrow> bs | _ \<Rightarrow> []), deadline := k, inbound := evs\<rparr>))"

definition tcp_consume :: "nat \<Rightarrow> tcp \<Rightarrow> tcp" where
  "tcp_consume n t = t\<lparr>rbuf := drop n (rbuf t)\<rparr>"

text \<open>A read at least as large as the empty buffer goes to the socket directly.\<close>

definition tcp_read :: "nat \<Rightarrow> tcp \<Rightarrow> bytes res \<times> tcp" where
  "tcp_read n t =
    (if rbuf t = [] \<and> BUF_CAPACITY \<le> n then
       (case sock_read n (deadline t) (inbound t) of
          (r, k, evs) \<Rightarrow> (r, t\<lparr>deadline := k, inbound := evs\<rparr>))
     else and_then (tcp_fill t) (\<lambda>b t. (Ok (take n b), tcp_consume (min n (length b)) t)))"

definition tcp_backlog :: "tcp \<Rightarrow> bytes" where
  "tcp_backlog t = rbuf t @ stream_bytes (inbound t)"

definition tcp_due :: "tcp \<Rightarrow> nat" where
  "tcp_due t = length (rbuf t) + due_bytes (deadline t) (inbound t)"

section \<open>Writing\<close>

text \<open>The write loop: each event is one write call, which takes a number of bytes.\<close>

fun sock_write ::
  "nat option \<Rightarrow> write_event list \<Rightarrow> bytes \<Rightarrow> unit res \<times> nat option \<times> write_event list \<times> bytes" where
  "sock_write k [] bs = (Ok (), k, [], bs)"
| "sock_write k (ev # ws) bs =
    (if bs = [] then (Ok (), k, ev # ws, [])
     else case ev of
            Accept d n \<Rightarrow>
              if late k d then (Pending, Some 0, Accept (d - the k) n # ws, [])
              else if n = 0 then (Err (from_io ''write zero''), spend k d, ws, [])
              else (case sock_write (spend k d) ws (drop n bs) of
                      (r, k', ws', acc) \<Rightarrow> (r, k', ws', take n bs @ acc))
          | Refuse msg \<Rightarrow> (Err (from_io msg), k, ev # ws, [])
          | Stuck \<Rightarrow> (Pending, (case k of None \<Rightarrow> None | Some _ \<Rightarrow> Some 0), ev # ws, []))"

definition tcp_write_all :: "bytes \<Rightarrow> tcp \<Rightarrow> unit res \<times> tcp" where
  "tcp_write_all bs t =
    (case sock_write (deadline t) (wplan t) bs of
       (r, k, ws, acc) \<Rightarrow>
         (r, t\<lparr>deadline := k, wplan := ws, outbound := outbound t @ acc,
               inbound := inbound t @ (if acc = [] then [] else server t (outbound t) acc)\<rparr>))"

definition tcp_net :: "tcp transport" where
  "tcp_net =
    \<lparr>fill_buf = tcp_fill, consume = tcp_consume, read_some = tcp_read, backlog = tcp_backlog,
     io_write_all = tcp_write_all, io_flush = (\<lambda>t. (Ok (), t)), io_buffer = rbuf,
     io_arm = (\<lambda>k t. t\<lparr>deadline := k\<rparr>)\<rparr>"

lemma tcp_net_simps [simp]:
  "fill_buf tcp_net = tcp_fill" "consume tcp_net = tcp_consume" "read_some tcp_net = tcp_read"
  "backlog tcp_net = tcp_backlog" "io_write_all tcp_net = tcp_write_all"
  "io_flush tcp_net t = (Ok (), t)" "io_buffer tcp_net = rbuf"
  "io_arm tcp_net k t = t\<lparr>deadline := k\<rparr>"
  by (simp_all add: tcp_net_def)

section \<open>It is a lawful buffered reader\<close>

lemma due_bytes_le: "due_bytes k evs \<le> length (stream_bytes evs)"
proof (induction evs arbitrary: k)
  case Nil
  then show ?case by simp
next
  case (Cons e evs)
  then show ?case by (cases e; cases "snd e") auto
qed

lemma late_spend [simp]: "\<not> late k 0"
  by (cases k) auto

lemma spend_0 [simp]: "spend k 0 = k"
  by (cases k) auto

lemma sock_read_Ok:
  assumes "sock_read cap k evs = (Ok b, k', evs')" "0 < cap"
  shows "stream_bytes evs = b @ stream_bytes evs' \<and> length b \<le> cap \<and>
    due_bytes k evs = length b + due_bytes k' evs' \<and> (b = [] \<longrightarrow> stream_bytes evs = [])"
  using assms
proof (induction cap k evs rule: sock_read.induct)
  case (1 cap k)
  then show ?case by simp
next
  case (2 cap k d ev rest)
  then show ?case
    by (cases ev) (auto split: if_splits)
qed

lemma sock_read_not_Ok:
  assumes "sock_read cap k evs = (r, k', evs')" "\<not> is_ok r"
  shows "stream_bytes evs' = stream_bytes evs \<and> due_bytes k' evs' = due_bytes k evs \<and>
    due_bytes k evs = 0 \<and> r \<noteq> Panic \<and> r \<noteq> Hang \<and> (\<forall>e. r = Err e \<longrightarrow> (\<exists>x. e = EIo x))"
  using assms
proof (induction cap k evs rule: sock_read.induct)
  case (1 cap k)
  then show ?case by auto
next
  case (2 cap k d ev rest)
  show ?case
  proof (cases "late k d")
    case True
    then obtain j where "k = Some j" "j < d" by (cases k) auto
    then show ?thesis using 2(2) by (cases ev) auto
  next
    case False
    then show ?thesis
      using 2 by (cases ev) (auto simp: from_io_def split: if_splits)
  qed
qed

lemma sock_read_ready:
  "0 < due_bytes k evs \<Longrightarrow> 0 < cap \<Longrightarrow> \<exists>b k' evs'. sock_read cap k evs = (Ok b, k', evs') \<and> b \<noteq> []"
proof (induction cap k evs rule: sock_read.induct)
  case (1 cap k)
  then show ?case by simp
next
  case (2 cap k d ev rest)
  then show ?case by (cases ev) (auto split: if_splits)
qed

lemma BUF_CAPACITY_pos [simp]: "0 < BUF_CAPACITY"
  by (simp add: BUF_CAPACITY_def)

text \<open>Filling the buffer when it is empty, in terms of the backlog.\<close>

lemma tcp_fill_facts:
  assumes "tcp_fill t = (r, u)"
  shows "tcp_backlog u = tcp_backlog t \<and> tcp_due u = tcp_due t \<and>
    (\<forall>b. r = Ok b \<longrightarrow> b = rbuf u \<and> (b = [] \<longrightarrow> tcp_backlog t = [])) \<and>
    (\<not> is_ok r \<longrightarrow> rbuf t = [] \<and> tcp_due t = 0 \<and> r \<noteq> Panic \<and> r \<noteq> Hang \<and> (\<forall>e. r = Err e \<longrightarrow> (\<exists>x. e = EIo x)))"
proof (cases "rbuf t = []")
  case False
  then show ?thesis using assms by (auto simp: tcp_fill_def)
next
  case True
  obtain q k evs where q: "sock_read BUF_CAPACITY (deadline t) (inbound t) = (q, k, evs)"
    by (cases "sock_read BUF_CAPACITY (deadline t) (inbound t)") auto
  then have u: "r = q" "u = t\<lparr>rbuf := (case q of Ok bs \<Rightarrow> bs | _ \<Rightarrow> []), deadline := k, inbound := evs\<rparr>"
    using assms True by (auto simp: tcp_fill_def)
  show ?thesis
  proof (cases q)
    case (Ok b)
    then show ?thesis
      using sock_read_Ok [of BUF_CAPACITY "deadline t" "inbound t" b k evs] q u True
      by (auto simp: tcp_backlog_def tcp_due_def)
  qed (use sock_read_not_Ok [OF q] u True in \<open>auto simp: tcp_backlog_def tcp_due_def\<close>)
qed

lemma tcp_consume_facts:
  "n \<le> length (rbuf t) \<Longrightarrow>
    tcp_backlog (tcp_consume n t) = drop n (tcp_backlog t) \<and> tcp_due (tcp_consume n t) = tcp_due t - n"
  by (auto simp: tcp_backlog_def tcp_due_def tcp_consume_def)

lemma tcp_due_le: "tcp_due t \<le> length (tcp_backlog t)"
  using due_bytes_le by (simp add: tcp_due_def tcp_backlog_def)

lemma tcp_fill_ready: "0 < tcp_due t \<Longrightarrow> \<exists>b u. tcp_fill t = (Ok b, u) \<and> b \<noteq> []"
  using sock_read_ready [of "deadline t" "inbound t" BUF_CAPACITY]
  by (cases "rbuf t = []") (auto simp: tcp_fill_def tcp_due_def)

lemma tcp_read_facts:
  assumes "0 < n" "tcp_read n t = (r, u)"
  shows "(\<forall>b. r = Ok b \<longrightarrow> tcp_backlog t = b @ tcp_backlog u \<and> length b \<le> n \<and> length b \<le> tcp_due t \<and>
      tcp_due u = tcp_due t - length b \<and> (b = [] \<longrightarrow> tcp_backlog t = [])) \<and>
    (\<not> is_ok r \<longrightarrow> tcp_backlog u = tcp_backlog t \<and> tcp_due u = tcp_due t \<and> tcp_due t = 0 \<and>
      r \<noteq> Panic \<and> r \<noteq> Hang \<and> (\<forall>e. r = Err e \<longrightarrow> (\<exists>x. e = EIo x)))"
proof (cases "rbuf t = [] \<and> BUF_CAPACITY \<le> n")
  case True
  obtain q k evs where q: "sock_read n (deadline t) (inbound t) = (q, k, evs)"
    by (cases "sock_read n (deadline t) (inbound t)") auto
  then have u: "r = q" "u = t\<lparr>deadline := k, inbound := evs\<rparr>"
    using assms True by (auto simp: tcp_read_def)
  show ?thesis
  proof (cases q)
    case (Ok b)
    then show ?thesis
      using sock_read_Ok [of n "deadline t" "inbound t" b k evs] q u True assms(1)
      by (auto simp: tcp_backlog_def tcp_due_def)
  qed (use sock_read_not_Ok [OF q] u True in \<open>auto simp: tcp_backlog_def tcp_due_def\<close>)
next
  case False
  then have eq: "and_then (tcp_fill t) (\<lambda>b t. (Ok (take n b), tcp_consume (min n (length b)) t)) = (r, u)"
    using assms(2) unfolding tcp_read_def by (simp split: if_splits)
  obtain f v where f: "tcp_fill t = (f, v)" by fastforce
  note ff = tcp_fill_facts [OF f]
  show ?thesis
  proof (cases f)
    case (Ok b)
    then have b: "b = rbuf v" "r = Ok (take n b)" "u = tcp_consume (min n (length b)) v"
      using eq f ff by auto
    have c: "tcp_backlog u = drop (min n (length b)) (tcp_backlog v)"
      "tcp_due u = tcp_due v - min n (length b)"
      using tcp_consume_facts [of "min n (length b)" v] b by auto
    have v: "tcp_backlog v = b @ stream_bytes (inbound v)" "length b \<le> tcp_due v"
      using b(1) by (simp_all add: tcp_backlog_def tcp_due_def)
    have "take n b @ drop (min n (length b)) (b @ stream_bytes (inbound v)) = b @ stream_bytes (inbound v)"
      by (cases "n \<le> length b") (simp_all add: min_def)
    then have "tcp_backlog t = take n b @ tcp_backlog u" using c v ff by simp
    moreover have "take n b = [] \<longrightarrow> tcp_backlog t = []" using assms(1) ff Ok by auto
    moreover have "tcp_due u = tcp_due t - length (take n b)" "length (take n b) \<le> tcp_due t"
      using c v ff by (auto simp: min.commute)
    ultimately show ?thesis using b(2) by auto
  qed (use eq f ff in auto)
qed

lemma tcp_read_ready: "0 < n \<Longrightarrow> 0 < tcp_due t \<Longrightarrow> \<exists>b u. tcp_read n t = (Ok b, u) \<and> b \<noteq> []"
proof -
  assume n: "0 < n" and d: "0 < tcp_due t"
  obtain r u where r: "tcp_read n t = (r, u)" by fastforce
  have "is_ok r" using tcp_read_facts [OF n r] d by auto
  then obtain b where b: "r = Ok b" by (cases r) auto
  then show ?thesis using tcp_read_facts [OF n r] r d tcp_due_le [of t] by auto
qed

interpretation tcp_io: buf_reader tcp_net tcp_due
proof unfold_locales
  fix s :: tcp and r t
  assume f: "fill_buf tcp_net s = (r, t)"
  then have t: "tcp_fill s = (r, t)" by simp
  show "backlog tcp_net t = backlog tcp_net s \<and> tcp_due t = tcp_due s"
    using tcp_fill_facts [OF t] by simp
  show "r \<noteq> Panic \<and> r \<noteq> Hang \<and> (\<forall>e. r = Err e \<longrightarrow> (\<exists>x. e = EIo x))"
    using tcp_fill_facts [OF t] by (cases r) auto
next
  fix s :: tcp and b t
  assume f: "fill_buf tcp_net s = (Ok b, t)"
  then have t: "tcp_fill s = (Ok b, t)" by simp
  have "b = rbuf t" "tcp_backlog t = tcp_backlog s" "tcp_due t = tcp_due s"
    using tcp_fill_facts [OF t] by auto
  then show "(\<exists>r. backlog tcp_net s = b @ r) \<and> length b \<le> tcp_due s"
    by (metis tcp_backlog_def tcp_due_def tcp_net_simps(4) le_add1)
next
  fix s :: tcp and b t and n :: nat
  assume f: "fill_buf tcp_net s = (Ok b, t)" and n: "n \<le> length b"
  then have t: "tcp_fill s = (Ok b, t)" by simp
  have "b = rbuf t" using tcp_fill_facts [OF t] by simp
  then show "backlog tcp_net (consume tcp_net n t) = drop n (backlog tcp_net t) \<and>
      tcp_due (consume tcp_net n t) = tcp_due t - n"
    using tcp_consume_facts n by simp
next
  fix s :: tcp
  show "tcp_due s \<le> length (backlog tcp_net s)" by (simp add: tcp_due_le)
  show "0 < tcp_due s \<Longrightarrow> \<exists>b t. fill_buf tcp_net s = (Ok b, t) \<and> b \<noteq> []"
    using tcp_fill_ready [of s] by auto
  show "fill_buf tcp_net s = (Ok [], t) \<Longrightarrow> backlog tcp_net s = []" for t
    using tcp_fill_facts [of s "Ok []" t] by simp
  fix n :: nat
  assume n: "0 < n"
  show "0 < tcp_due s \<Longrightarrow> \<exists>b t. read_some tcp_net n s = (Ok b, t) \<and> b \<noteq> []"
    using tcp_read_ready [of n s] n by auto
  show "read_some tcp_net n s = (Ok [], t) \<Longrightarrow> backlog tcp_net s = []" for t
    using tcp_read_facts [OF n, of s "Ok []" t] by auto
  show "read_some tcp_net n s = (Ok b, t) \<Longrightarrow>
      backlog tcp_net s = b @ backlog tcp_net t \<and> length b \<le> n \<and> length b \<le> tcp_due s \<and>
      tcp_due t = tcp_due s - length b" for b t
    using tcp_read_facts [OF n, of s "Ok b" t] by simp
  show "read_some tcp_net n s = (r, t) \<Longrightarrow>
      r \<noteq> Panic \<and> r \<noteq> Hang \<and> (\<forall>e. r = Err e \<longrightarrow> (\<exists>x. e = EIo x)) \<and>
      (\<not> is_ok r \<longrightarrow> backlog tcp_net t = backlog tcp_net s \<and> tcp_due t = tcp_due s)" for r t
    using tcp_read_facts [OF n, of s r t] by (cases r) auto
qed

end
