(* ===== verification/Pool.thy ===== *)
theory Pool imports Tcp begin

text \<open>
  \<open>src/pool.rs\<close>: the connection pool, as its operations run one after another. \<open>Pool_Concurrent\<close> has
  the same operations cut at their await points and interleaved.

  Outside \<open>src/\<close> are the dialling function (here the result of its \<open>n\<close>-th call), the semaphore
  (a count of free permits) and the clock. A guard is a connection together with a permit it keeps
  until it is dropped or removed.
\<close>

section \<open>The state\<close>

record 't PoolOptions =
  pool_size :: nat
  idle_timeout :: "nat option"
  dial_timeout :: nat
  opt_read_timeout :: "nat option"
  opt_write_timeout :: "nat option"
  init_conn :: "('t connection \<Rightarrow> 't connection res) option"

text \<open>Durations are counted in nanoseconds.\<close>

definition from_secs :: "nat \<Rightarrow> nat" where
  "from_secs n = n * 10 ^ 9"

definition PoolOptions_default :: "'t PoolOptions" where
  "PoolOptions_default =
    \<lparr>pool_size = 10, idle_timeout = None, dial_timeout = from_secs 5,
     opt_read_timeout = None, opt_write_timeout = None, init_conn = None\<rparr>"

record 't PooledConnection =
  pc_conn :: "'t connection"
  used_at :: nat

record 't ConnPool =
  dial :: "nat \<Rightarrow> 't res"
  dialled :: nat
  opts :: "'t PoolOptions"
  permits :: nat
  idle :: "'t PooledConnection list"
  closed :: bool
  clock :: nat

definition pool_new :: "(nat \<Rightarrow> 't res) \<Rightarrow> 't PoolOptions \<Rightarrow> 't ConnPool" where
  "pool_new d o' =
    \<lparr>dial = d, dialled = 0, opts = o', permits = pool_size o', idle = [], closed = False, clock = 0\<rparr>"

section \<open>Getting a connection\<close>

text \<open>The last element of the vector, and what is left without it.\<close>

definition pop_idle :: "'a list \<Rightarrow> ('a \<times> 'a list) option" where
  "pop_idle xs = (if xs = [] then None else Some (last xs, butlast xs))"

definition expired :: "'t ConnPool \<Rightarrow> 't PooledConnection \<Rightarrow> bool" where
  "expired p pc = (case idle_timeout (opts p) of
                     Some limit \<Rightarrow> limit < clock p - used_at pc
                   | None \<Rightarrow> False)"

definition prepare :: "'t PoolOptions \<Rightarrow> 't connection \<Rightarrow> 't connection" where
  "prepare o' c =
    set_write_timeout (opt_write_timeout o') (set_read_timeout (opt_read_timeout o') c)"

definition release :: "'t ConnPool \<Rightarrow> 't ConnPool" where
  "release p = p\<lparr>permits := permits p + 1\<rparr>"

text \<open>
  The permit is a local variable of \<open>get\<close>: an error return or a panic gives it back, a call that
  never comes back keeps it.
\<close>

definition unwind :: "'a res \<Rightarrow> 't ConnPool \<Rightarrow> 'a res \<times> 't ConnPool" where
  "unwind r p = (r, case r of Err e \<Rightarrow> release p | Panic \<Rightarrow> release p | _ \<Rightarrow> p)"

definition pool_dial :: "'t ConnPool \<Rightarrow> 't connection res \<times> 't ConnPool" where
  "pool_dial p =
    (let p1 = p\<lparr>dialled := dialled p + 1\<rparr>;
         fresh = map_ok (\<lambda>s. prepare (opts p) (connection_new s)) (dial p (dialled p))
     in unwind (case init_conn (opts p) of
                  None \<Rightarrow> fresh
                | Some f \<Rightarrow> bind_outcome fresh f) p1)"

function pool_get :: "'t ConnPool \<Rightarrow> 't connection res \<times> 't ConnPool" where
  "pool_get p =
    (if closed p then (Err EClosed, p)
     else if permits p = 0 then (Pending, p)
     else
       let p1 = p\<lparr>permits := permits p - 1\<rparr> in
       case pop_idle (idle p1) of
         Some (pc, rest) \<Rightarrow>
           if expired p1 pc then pool_get (release (p1\<lparr>idle := rest\<rparr>))
           else (Ok (prepare (opts p) (pc_conn pc)), p1\<lparr>idle := rest\<rparr>)
       | None \<Rightarrow> pool_dial p1)"
  by pat_completeness auto
termination
  by (relation "measure (\<lambda>p. length (idle p))")
    (auto simp: pop_idle_def release_def split: if_splits)

declare pool_get.simps [simp del]

section \<open>Giving it back\<close>

definition pool_put :: "'t transport \<Rightarrow> 't connection \<Rightarrow> 't ConnPool \<Rightarrow> 't ConnPool" where
  "pool_put N c p =
    (if 0 < buffer_size N c then p
     else if closed p then p
     else p\<lparr>idle := idle p @ [\<lparr>pc_conn = c, used_at = clock p\<rparr>]\<rparr>)"

text \<open>
  Dropping a guard that still has its connection: the spawned \<open>put\<close> runs at once, and the permit is
  released.
\<close>

definition guard_drop :: "'t transport \<Rightarrow> 't connection \<Rightarrow> 't ConnPool \<Rightarrow> 't ConnPool" where
  "guard_drop N c p = release (if 0 < buffer_size N c then p else pool_put N c p)"

definition guard_remove :: "'t connection \<Rightarrow> 't ConnPool \<Rightarrow> 't connection \<times> 't ConnPool" where
  "guard_remove c p = (c, release p)"

definition pool_close :: "'t ConnPool \<Rightarrow> unit res \<times> 't ConnPool" where
  "pool_close p = (if closed p then (Ok (), p) else (Ok (), p\<lparr>closed := True, idle := []\<rparr>))"

text \<open>
  How the client uses the pool: get a guard, work on its connection, drop the guard when the
  function returns or panics.
\<close>

definition with_guard ::
  "'t transport \<Rightarrow> ('t connection \<Rightarrow> 'a res \<times> 't connection) \<Rightarrow> 't ConnPool \<Rightarrow> 'a res \<times> 't ConnPool" where
  "with_guard N act p =
    and_then (pool_get p) (\<lambda>c p1.
      case act c of (r, c1) \<Rightarrow>
        (r, if r = Pending \<or> r = Hang then p1 else guard_drop N c1 p1))"

section \<open>The interface of the pool\<close>

text \<open>
  What a client relies on: an invariant, and that a permit taken by \<open>get\<close> is there again once the
  guard is dropped.
\<close>

locale guarded =
  fixes get :: "'p \<Rightarrow> ('e, 'c) outcome \<times> 'p" and give :: "'c \<Rightarrow> 'p \<Rightarrow> 'p"
    and avail :: "'p \<Rightarrow> nat" and sound :: "'p \<Rightarrow> bool"
  assumes get_ok: "sound p \<Longrightarrow> get p = (Ok c, q) \<Longrightarrow> sound q \<and> Suc (avail q) = avail p"
    and get_fail: "sound p \<Longrightarrow> get p = (r, q) \<Longrightarrow> r = Err e \<or> r = Panic \<Longrightarrow> sound q \<and> avail q = avail p"
    and give_back: "sound p \<Longrightarrow> sound (give c p) \<and> avail (give c p) = Suc (avail p)"
begin

text \<open>A client that comes back leaves the pool sound and with as many permits as before.\<close>

lemma session_balanced:
  assumes "sound p" and run: "and_then (get p) (\<lambda>c q. case act c of (r, c1) \<Rightarrow>
      (r, if r = Pending \<or> r = Hang then q else give c1 q)) = (r, p')"
    and "returned r \<or> r = Panic"
  shows "sound p' \<and> avail p' = avail p"
  using run
proof (cases rule: and_then_cases)
  case (runs c q)
  then show ?thesis
    using get_ok [OF assms(1) runs(1)] assms(3) give_back by (auto split: prod.splits)
next
  case (fails f)
  then have "(\<exists>e. f = Err e) \<or> f = Panic" using assms(3) by (cases f) auto
  then show ?thesis using get_fail [OF assms(1) fails(1)] by blast
qed

end

text \<open>
  The invariant of the pool between calls: no idle connection has unread bytes in its buffer, a
  closed pool has no idle connection, none was put back in the future, and no more permits are free
  than there are.
\<close>

definition pool_ok :: "'t transport \<Rightarrow> 't ConnPool \<Rightarrow> bool" where
  "pool_ok N p \<longleftrightarrow>
    (\<forall>pc \<in> set (idle p). buffer_size N (pc_conn pc) = 0 \<and> used_at pc \<le> clock p) \<and>
    (closed p \<longrightarrow> idle p = [])"

lemma pool_ok_new: "pool_ok N (pool_new d o')"
  by (simp add: pool_ok_def pool_new_def)

lemma release_simps [simp, pool_simps]:
  "permits (release p) = Suc (permits p)" "idle (release p) = idle p" "closed (release p) = closed p"
  "clock (release p) = clock p" "opts (release p) = opts p" "dial (release p) = dial p"
  "dialled (release p) = dialled p" "pool_ok N (release p) = pool_ok N p"
  by (simp_all add: release_def pool_ok_def)

lemma prepare_simps [simp]:
  "stream (prepare o' c) = stream c" "read_timeout (prepare o' c) = opt_read_timeout o'"
  "write_timeout (prepare o' c) = opt_write_timeout o'"
  by (simp_all add: prepare_def set_read_timeout_def set_write_timeout_def)

lemma pop_idle_Some: "pop_idle xs = Some (x, rest) \<longleftrightarrow> xs = rest @ [x]"
  by (auto simp: pop_idle_def)

lemma pop_idle_None: "pop_idle xs = None \<longleftrightarrow> xs = []"
  by (simp add: pop_idle_def)

lemma pool_dial_facts:
  "pool_dial p = (r, q) \<Longrightarrow>
    idle q = idle p \<and> closed q = closed p \<and> clock q = clock p \<and> opts q = opts p \<and> dial q = dial p \<and>
    permits q = (case r of Err e \<Rightarrow> Suc (permits p) | Panic \<Rightarrow> Suc (permits p) | _ \<Rightarrow> permits p)"
  by (auto simp: pool_dial_def Let_def unwind_def split: outcome.splits)

text \<open>One round of the loop in \<open>get\<close>.\<close>

lemma pool_get_round:
  assumes "pool_get p = (r, q)"
  obtains (is_closed) "closed p" "r = Err EClosed" "q = p"
  | (no_permit) "\<not> closed p" "permits p = 0" "r = Pending" "q = p"
  | (evict) pc rest where "\<not> closed p" "0 < permits p" "idle p = rest @ [pc]" "expired p pc"
      "pool_get (p\<lparr>idle := rest\<rparr>) = (r, q)"
  | (reuse) pc rest where "\<not> closed p" "0 < permits p" "idle p = rest @ [pc]" "\<not> expired p pc"
      "r = Ok (prepare (opts p) (pc_conn pc))" "q = p\<lparr>permits := permits p - 1, idle := rest\<rparr>"
  | (dials) "\<not> closed p" "0 < permits p" "idle p = []"
      "pool_dial (p\<lparr>permits := permits p - 1\<rparr>) = (r, q)"
proof -
  consider "closed p" | "\<not> closed p" "permits p = 0" | "\<not> closed p" "0 < permits p" by auto
  then show thesis
  proof cases
    case 1
    then have "pool_get p = (Err EClosed, p)" by (simp add: pool_get.simps [of p])
    then have "r = Err EClosed" "q = p" using assms by simp_all
    then show thesis using is_closed 1 by blast
  next
    case 2
    then have "pool_get p = (Pending, p)" by (simp add: pool_get.simps [of p])
    then have "r = Pending" "q = p" using assms by simp_all
    then show thesis using no_permit 2 by blast
  next
    case 3
    show thesis
    proof (cases "pop_idle (idle p)")
      case None
      then have i: "idle p = []" by (simp add: pop_idle_None)
      then have "pool_dial (p\<lparr>permits := permits p - 1\<rparr>) = (r, q)"
        using assms 3 by (simp add: pool_get.simps [of p] pop_idle_def Let_def)
      then show thesis using dials 3 i by blast
    next
      case (Some a)
      obtain pc rest where a: "a = (pc, rest)" by fastforce
      have i: "idle p = rest @ [pc]" using Some a by (simp add: pop_idle_Some)
      have e: "expired (p\<lparr>permits := permits p - 1\<rparr>) pc = expired p pc"
        by (simp add: expired_def split: option.splits)
      have rel: "release (p\<lparr>permits := permits p - 1, idle := rest\<rparr>) = p\<lparr>idle := rest\<rparr>"
        using 3 by (simp add: release_def)
      show thesis
      proof (cases "expired p pc")
        case True
        then have "pool_get p = pool_get (release (p\<lparr>permits := permits p - 1, idle := rest\<rparr>))"
          using 3 Some a e by (simp add: pool_get.simps [of p])
        then have "pool_get (p\<lparr>idle := rest\<rparr>) = (r, q)" using assms unfolding rel by simp
        then show thesis using evict 3 i True by blast
      next
        case False
        then show thesis
          using assms 3 Some a e i reuse [of rest pc] by (simp add: pool_get.simps [of p])
      qed
    qed
  qed
qed

lemma pool_get_facts:
  "pool_get p = (r, q) \<Longrightarrow>
    closed q = closed p \<and> clock q = clock p \<and> opts q = opts p \<and>
    (\<exists>gone. idle p = idle q @ gone) \<and>
    (is_ok r \<longrightarrow> \<not> closed p \<and> Suc (permits q) = permits p) \<and>
    ((\<exists>e. r = Err e) \<or> r = Panic \<longrightarrow> permits q = permits p)"
proof (induction "length (idle p)" arbitrary: p rule: less_induct)
  case less
  from less.prems show ?case
  proof (cases rule: pool_get_round)
    case (evict pc rest)
    then show ?thesis using less.hyps [of "p\<lparr>idle := rest\<rparr>"] by auto
  next
    case dials
    then show ?thesis using pool_dial_facts [OF dials(4)] by (cases r) auto
  qed auto
qed

lemma pool_get_sound:
  "pool_ok N p \<Longrightarrow> pool_get p = (r, q) \<Longrightarrow> pool_ok N q"
  using pool_get_facts [of p r q] by (auto simp: pool_ok_def)

lemma pool_put_sound: "pool_ok N p \<Longrightarrow> pool_ok N (pool_put N c p)"
  by (auto simp: pool_ok_def pool_put_def)

lemma pool_put_frame [simp, pool_simps]:
  "permits (pool_put N c p) = permits p" "closed (pool_put N c p) = closed p"
  "clock (pool_put N c p) = clock p" "opts (pool_put N c p) = opts p"
  by (simp_all add: pool_put_def)

lemma guard_drop_sound: "pool_ok N p \<Longrightarrow> pool_ok N (guard_drop N c p)"
  by (simp add: guard_drop_def pool_put_sound)

lemma guard_drop_permits [simp, pool_simps]: "permits (guard_drop N c p) = Suc (permits p)"
  by (simp add: guard_drop_def)

lemma guard_drop_closed [simp, pool_simps]: "closed (guard_drop N c p) = closed p"
  by (simp add: guard_drop_def)

interpretation pool: guarded pool_get "guard_drop N" permits "pool_ok N" for N
proof unfold_locales
  fix p q :: "'a ConnPool" and c
  assume "pool_ok N p" "pool_get p = (Ok c, q)"
  then show "pool_ok N q \<and> Suc (permits q) = permits p"
    using pool_get_sound pool_get_facts by fastforce
next
  fix p q :: "'a ConnPool" and r and e
  assume "pool_ok N p" "pool_get p = (r, q)" "r = Err e \<or> r = Panic"
  then show "pool_ok N q \<and> permits q = permits p"
    using pool_get_sound pool_get_facts by blast
next
  fix p :: "'a ConnPool" and c
  assume "pool_ok N p"
  then show "pool_ok N (guard_drop N c p) \<and> permits (guard_drop N c p) = Suc (permits p)"
    by (simp add: guard_drop_sound)
qed

lemma with_guard_balanced:
  "pool_ok N p \<Longrightarrow> with_guard N act p = (r, p') \<Longrightarrow> returned r \<or> r = Panic \<Longrightarrow>
    pool_ok N p' \<and> permits p' = permits p"
  unfolding with_guard_def by (rule pool.session_balanced)

text \<open>A closed pool serves nobody and stays closed and empty.\<close>

lemma pool_get_closed: "closed p \<Longrightarrow> pool_get p = (Err EClosed, p)"
  by (simp add: pool_get.simps [of p])

lemma pool_close_sound: "pool_ok N p \<Longrightarrow> pool_ok N (snd (pool_close p)) \<and> closed (snd (pool_close p))"
  by (auto simp: pool_close_def pool_ok_def)

text \<open>What is handed out: the youngest idle connection that has not expired, or a new one.\<close>

definition usable :: "'t ConnPool \<Rightarrow> 't PooledConnection list" where
  "usable p = dropWhile (expired p) (rev (idle p))"

lemma pool_get_result:
  assumes "\<not> closed p" "0 < permits p"
  shows "pool_get p =
    (case usable p of
       pc # older \<Rightarrow>
         (Ok (prepare (opts p) (pc_conn pc)), p\<lparr>permits := permits p - 1, idle := rev older\<rparr>)
     | [] \<Rightarrow> pool_dial (p\<lparr>permits := permits p - 1, idle := []\<rparr>))"
  using assms
proof (induction "length (idle p)" arbitrary: p rule: less_induct)
  case less
  obtain r q where rq: "pool_get p = (r, q)" by fastforce
  from rq show ?case
  proof (cases rule: pool_get_round)
    case (evict pc rest)
    have "expired (p\<lparr>idle := rest\<rparr>) = expired p"
      by (rule ext) (simp add: expired_def split: option.splits)
    then have "usable (p\<lparr>idle := rest\<rparr>) = usable p" using evict by (simp add: usable_def)
    then show ?thesis
      using less.hyps [of "p\<lparr>idle := rest\<rparr>"] evict rq less.prems by (simp split: list.splits)
  next
    case (reuse pc rest)
    then have "usable p = pc # rev rest" by (simp add: usable_def)
    then show ?thesis using reuse rq by simp
  next
    case dials
    have "pool_dial (p\<lparr>permits := permits p - 1, idle := []\<rparr>) = (r, q)"
      using dials(3,4) by (cases p) simp
    then show ?thesis using dials(3) rq by (simp add: usable_def)
  qed (use less.prems in auto)
qed

end
