(* ===== verification/Pool_Concurrent.thy ===== *)
theory Pool_Concurrent imports Pool begin

text \<open>
  The pool of \<open>src/pool.rs\<close> under concurrency: \<open>get\<close>, \<open>put\<close>, \<open>close\<close> and the dropping of a guard cut
  at their await points, and any number of tasks interleaved. A step of a task takes place between
  two points at which it can be suspended; the two mutexes are the reason why the steps are atomic,
  except that \<open>put\<close> keeps the lock on \<open>closed\<close> while it waits for the one on \<open>idle\<close>, which is
  therefore a part of the state.
\<close>

section \<open>Tasks and their steps\<close>

datatype 't task =
    GetStart
  | GetAcquire
  | GetHold
  | GetEvict
  | GetDial
  | GetInit "'t connection"
  | Using "'t connection"
  | Releasing
  | PutStart "'t connection"
  | PutWait "'t PooledConnection"
  | PutPush "'t PooledConnection"
  | CloseStart
  | CloseClear
  | Finished

text \<open>
  One step of the task with the index \<open>i\<close>: pool, holder of the lock on \<open>closed\<close> and task before and
  after, and the tasks it spawns.
\<close>

inductive tstep ::
  "'t transport \<Rightarrow> nat \<Rightarrow> 't ConnPool \<Rightarrow> nat option \<Rightarrow> 't task \<Rightarrow>
    't ConnPool \<Rightarrow> nat option \<Rightarrow> 't task \<Rightarrow> 't task list \<Rightarrow> bool" for N i where
  get_closed: "closed p \<Longrightarrow> tstep N i p None GetStart p None Finished []"
| get_open: "\<not> closed p \<Longrightarrow> tstep N i p None GetStart p None GetAcquire []"
| acquire: "0 < permits p \<Longrightarrow>
    tstep N i p l GetAcquire (p\<lparr>permits := permits p - 1\<rparr>) l GetHold []"
| pop_expired: "pop_idle (idle p) = Some (pc, rest) \<Longrightarrow> expired p pc \<Longrightarrow>
    tstep N i p l GetHold (p\<lparr>idle := rest\<rparr>) l GetEvict []"
| evict: "tstep N i p l GetEvict (release p) l GetStart []"
| pop_fresh: "pop_idle (idle p) = Some (pc, rest) \<Longrightarrow> \<not> expired p pc \<Longrightarrow>
    tstep N i p l GetHold (p\<lparr>idle := rest\<rparr>) l (Using (prepare (opts p) (pc_conn pc))) []"
| pop_none: "pop_idle (idle p) = None \<Longrightarrow> tstep N i p l GetHold p l GetDial []"
| dial_ok: "dial p (dialled p) = Ok s \<Longrightarrow> c = prepare (opts p) (connection_new s) \<Longrightarrow>
    tstep N i p l GetDial (p\<lparr>dialled := dialled p + 1\<rparr>) l
      (if init_conn (opts p) = None then Using c else GetInit c) []"
| dial_fail: "dial p (dialled p) = Err e \<or> dial p (dialled p) = Panic \<Longrightarrow>
    tstep N i p l GetDial (p\<lparr>dialled := dialled p + 1\<rparr>) l Releasing []"
| init_ok: "init_conn (opts p) = Some f \<Longrightarrow> f c = Ok c' \<Longrightarrow>
    tstep N i p l (GetInit c) p l (Using c') []"
| init_fail: "init_conn (opts p) = Some f \<Longrightarrow> f c = Err e \<or> f c = Panic \<Longrightarrow>
    tstep N i p l (GetInit c) p l Releasing []"
| drop_clean: "buffer_size N c = 0 \<Longrightarrow> tstep N i p l (Using c) p l Releasing [PutStart c]"
| drop_dirty: "0 < buffer_size N c \<Longrightarrow> tstep N i p l (Using c) p l Releasing []"
| remove: "tstep N i p l (Using c) p l Releasing []"
| release_permit: "tstep N i p l Releasing (release p) l Finished []"
| put_dirty: "0 < buffer_size N c \<Longrightarrow> tstep N i p l (PutStart c) p l Finished []"
| put_stamp: "buffer_size N c = 0 \<Longrightarrow>
    tstep N i p l (PutStart c) p l (PutWait \<lparr>pc_conn = c, used_at = clock p\<rparr>) []"
| put_closed: "closed p \<Longrightarrow> tstep N i p None (PutWait pc) p None Finished []"
| put_lock: "\<not> closed p \<Longrightarrow> tstep N i p None (PutWait pc) p (Some i) (PutPush pc) []"
| put_push: "tstep N i p (Some i) (PutPush pc) (p\<lparr>idle := idle p @ [pc]\<rparr>) None Finished []"
| close_again: "closed p \<Longrightarrow> tstep N i p None CloseStart p None Finished []"
| close_set: "\<not> closed p \<Longrightarrow> tstep N i p None CloseStart (p\<lparr>closed := True\<rparr>) None CloseClear []"
| close_clear: "tstep N i p l CloseClear (p\<lparr>idle := []\<rparr>) l Finished []"

section \<open>The whole system\<close>

record 't sys =
  shared :: "'t ConnPool"
  locked :: "nat option"
  tasks :: "'t task list"

text \<open>
  A call of \<open>get\<close> or \<open>close\<close> whose future is dropped gives back what it holds at the await point where
  it was suspended; the rest of it never runs. A call of \<open>close\<close> can so end between setting the flag
  and clearing the list.
\<close>

fun cancelled :: "'t task \<Rightarrow> 't task option" where
  "cancelled GetStart = Some Finished"
| "cancelled GetAcquire = Some Finished"
| "cancelled GetHold = Some Releasing"
| "cancelled GetDial = Some Releasing"
| "cancelled (GetInit c) = Some Releasing"
| "cancelled CloseStart = Some Finished"
| "cancelled CloseClear = Some Finished"
| "cancelled _ = None"

text \<open>
  Tasks come in by calls of \<open>get\<close> and \<open>close\<close>; any task may move; the holder of a guard may do
  whatever it wants with the connection; a call may be cancelled; time passes.
\<close>

inductive pstep :: "'t transport \<Rightarrow> 't sys \<Rightarrow> 't sys \<Rightarrow> bool" for N where
  call_get: "pstep N s (s\<lparr>tasks := tasks s @ [GetStart]\<rparr>)"
| call_close: "pstep N s (s\<lparr>tasks := tasks s @ [CloseStart]\<rparr>)"
| run: "i < length (tasks s) \<Longrightarrow>
    tstep N i (shared s) (locked s) (tasks s ! i) p' l' t' new \<Longrightarrow>
    pstep N s \<lparr>shared = p', locked = l', tasks = (tasks s)[i := t'] @ new\<rparr>"
| work: "i < length (tasks s) \<Longrightarrow> tasks s ! i = Using c \<Longrightarrow>
    pstep N s (s\<lparr>tasks := (tasks s)[i := Using c']\<rparr>)"
| cancel: "i < length (tasks s) \<Longrightarrow> cancelled (tasks s ! i) = Some t' \<Longrightarrow>
    pstep N s (s\<lparr>tasks := (tasks s)[i := t']\<rparr>)"
| tick: "pstep N s (s\<lparr>shared := (shared s)\<lparr>clock := clock (shared s) + n\<rparr>\<rparr>)"

definition sys_new :: "(nat \<Rightarrow> 't res) \<Rightarrow> 't PoolOptions \<Rightarrow> 't sys" where
  "sys_new d o' = \<lparr>shared = pool_new d o', locked = None, tasks = []\<rparr>"

inductive reachable :: "'t transport \<Rightarrow> 't sys \<Rightarrow> 't sys \<Rightarrow> bool" for N s0 where
  start: "reachable N s0 s0"
| move: "reachable N s0 s \<Longrightarrow> pstep N s s' \<Longrightarrow> reachable N s0 s'"

lemma reachable_trans: "reachable N s t \<Longrightarrow> reachable N t u \<Longrightarrow> reachable N s u"
  by (rotate_tac 1, induction rule: reachable.induct) (auto intro: reachable.move)

lemma reachable_step: "pstep N s t \<Longrightarrow> reachable N s t"
  by (meson reachable.intros)

section \<open>Permits\<close>

fun holding :: "'t task \<Rightarrow> bool" where
  "holding GetHold = True"
| "holding GetEvict = True"
| "holding GetDial = True"
| "holding (GetInit c) = True"
| "holding (Using c) = True"
| "holding Releasing = True"
| "holding _ = False"

fun in_use :: "'t task \<Rightarrow> bool" where
  "in_use (Using c) = True"
| "in_use _ = False"

fun pushing :: "'t task \<Rightarrow> bool" where
  "pushing (PutPush pc) = True"
| "pushing _ = False"

definition fit_for_reuse :: "'t transport \<Rightarrow> nat \<Rightarrow> 't PooledConnection \<Rightarrow> bool" where
  "fit_for_reuse N now pc \<longleftrightarrow> buffer_size N (pc_conn pc) = 0 \<and> used_at pc \<le> now"

fun task_clean :: "'t transport \<Rightarrow> nat \<Rightarrow> 't task \<Rightarrow> bool" where
  "task_clean N now (PutWait pc) = fit_for_reuse N now pc"
| "task_clean N now (PutPush pc) = fit_for_reuse N now pc"
| "task_clean N now (PutStart c) = (buffer_size N c = 0)"
| "task_clean N now _ = True"

definition holders :: "'t task list \<Rightarrow> nat" where
  "holders ts = length (filter holding ts)"

definition users :: "'t task list \<Rightarrow> nat" where
  "users ts = length (filter in_use ts)"

lemma users_le_holders: "users ts \<le> holders ts"
proof (induction ts)
  case Nil
  then show ?case by (simp add: users_def holders_def)
next
  case (Cons t ts)
  then show ?case by (cases t) (simp_all add: users_def holders_def)
qed

lemma holders_append [simp]: "holders (xs @ ys) = holders xs + holders ys"
  by (simp add: holders_def)

lemma holders_simps [simp]:
  "holders [] = 0" "holders (t # ts) = (if holding t then 1 else 0) + holders ts"
  by (simp_all add: holders_def)

lemma holders_update:
  "i < length ts \<Longrightarrow>
    holders (ts[i := t]) + (if holding (ts ! i) then 1 else 0) = holders ts + (if holding t then 1 else 0)"
  unfolding holders_def by (rule filter_list_update_length)

text \<open>A step moves permits between the pool and its own task only.\<close>

lemma tstep_permits:
  "tstep N i p l t p' l' t' new \<Longrightarrow>
    permits p' + (if holding t' then 1 else 0) = permits p + (if holding t then 1 else 0) \<and>
    holders new = 0 \<and> opts p' = opts p"
  by (induction rule: tstep.induct) auto

lemma cancelled_facts:
  "cancelled t = Some t' \<Longrightarrow>
    holding t' = holding t \<and> \<not> pushing t \<and> \<not> pushing t' \<and> t' \<noteq> CloseClear \<and>
    task_clean N now t'"
  by (cases t) auto

definition permit_inv :: "'t sys \<Rightarrow> bool" where
  "permit_inv s \<longleftrightarrow> permits (shared s) + holders (tasks s) = pool_size (opts (shared s))"

lemma permit_inv_step: "pstep N s s' \<Longrightarrow> permit_inv s \<Longrightarrow> permit_inv s'"
proof (induction rule: pstep.induct)
  case (run i s p' l' t' new)
  then show ?case
    using tstep_permits [OF run(2)] holders_update [OF run(1), of t'] by (auto simp: permit_inv_def)
next
  case (work i s c c')
  then show ?case using holders_update [OF work(1), of "Using c'"] by (simp add: permit_inv_def)
next
  case (cancel i s t')
  then show ?case
    using holders_update [OF cancel(1), of t'] cancelled_facts [OF cancel(2)]
    by (simp add: permit_inv_def split: if_splits)
qed (simp_all add: permit_inv_def)

lemma permit_inv_reachable: "reachable N (sys_new d o') s \<Longrightarrow> permit_inv s"
proof (induction rule: reachable.induct)
  case start
  then show ?case by (simp add: permit_inv_def sys_new_def pool_new_def)
qed (rule permit_inv_step)

lemma tstep_opts: "tstep N i p l t p' l' t' new \<Longrightarrow> opts p' = opts p \<and> dial p' = dial p"
  by (induction rule: tstep.induct) auto

lemma opts_reachable:
  "reachable N (sys_new d o') s \<Longrightarrow> opts (shared s) = o' \<and> dial (shared s) = d"
proof (induction rule: reachable.induct)
  case start
  then show ?case by (simp add: sys_new_def pool_new_def)
next
  case (move s s')
  from move(2,3) show ?case by (induction rule: pstep.induct) (auto dest: tstep_opts)
qed

section \<open>The lock\<close>

text \<open>The lock is held by the one task that is about to push, and the pool is open then.\<close>

definition lock_inv :: "'t sys \<Rightarrow> bool" where
  "lock_inv s \<longleftrightarrow>
    (\<forall>j < length (tasks s). pushing (tasks s ! j) \<longleftrightarrow> locked s = Some j) \<and>
    (\<forall>j. locked s = Some j \<longrightarrow> j < length (tasks s) \<and> \<not> closed (shared s))"

lemma tstep_lock:
  "tstep N i p l t p' l' t' new \<Longrightarrow> (pushing t \<longleftrightarrow> l = Some i) \<Longrightarrow>
    (pushing t' \<longleftrightarrow> l' = Some i) \<and> (l' = l \<or> l = None \<and> l' = Some i \<or> l = Some i \<and> l' = None) \<and>
    (closed p' \<longrightarrow> closed p \<or> l' = None) \<and> (l = None \<and> l' = Some i \<longrightarrow> \<not> closed p) \<and>
    (\<forall>x \<in> set new. \<not> pushing x)"
  by (induction rule: tstep.induct) auto

text \<open>The new task list, element by element.\<close>

lemma nth_tasks_step:
  "i < length ts \<Longrightarrow> j < length (ts[i := t'] @ new) \<Longrightarrow>
    (ts[i := t'] @ new) ! j =
      (if j = i then t' else if j < length ts then ts ! j else new ! (j - length ts))"
  by (auto simp: nth_append)

lemma lock_inv_step: "pstep N s s' \<Longrightarrow> lock_inv s \<Longrightarrow> lock_inv s'"
proof (induction rule: pstep.induct)
  case (call_get s)
  then show ?case by (auto simp: lock_inv_def nth_append less_Suc_eq)
next
  case (call_close s)
  then show ?case by (auto simp: lock_inv_def nth_append less_Suc_eq)
next
  case (run i s p' l' t' new)
  have pre: "\<And>j. j < length (tasks s) \<Longrightarrow> pushing (tasks s ! j) \<longleftrightarrow> locked s = Some j"
    "\<And>j. locked s = Some j \<Longrightarrow> j < length (tasks s)" "\<And>j. locked s = Some j \<Longrightarrow> \<not> closed (shared s)"
    using run(3) by (auto simp: lock_inv_def)
  note L = tstep_lock [OF run(2) pre(1) [OF run(1)]]
  have "pushing (((tasks s)[i := t'] @ new) ! j) \<longleftrightarrow> l' = Some j"
    if j: "j < length ((tasks s)[i := t'] @ new)" for j
  proof -
    consider "j = i" | "j \<noteq> i" "j < length (tasks s)" | "length (tasks s) \<le> j" by linarith
    then show ?thesis
    proof cases
      case 1
      then show ?thesis using L nth_tasks_step [OF run(1) j] by simp
    next
      case 2
      then have "l' = Some j \<longleftrightarrow> locked s = Some j" using L by auto
      then show ?thesis using 2 nth_tasks_step [OF run(1) j] pre(1) [of j] by simp
    next
      case 3
      then have "new ! (j - length (tasks s)) \<in> set new" using j by simp
      moreover have "l' \<noteq> Some j" using L 3 run(1) pre(2) [of j] by auto
      ultimately show ?thesis using 3 nth_tasks_step [OF run(1) j] L run(1) by auto
    qed
  qed
  moreover have "j < length ((tasks s)[i := t'] @ new) \<and> \<not> closed p'" if "l' = Some j" for j
  proof -
    have "l' = locked s \<or> l' = Some i \<and> \<not> closed (shared s)" using L that by auto
    then have "j < length (tasks s) \<and> \<not> closed (shared s)"
      using that pre(2,3) [of j] run(1) by auto
    then show ?thesis using L that by auto
  qed
  ultimately show ?case unfolding lock_inv_def by simp
next
  case (work i s c c')
  then show ?case by (auto simp: lock_inv_def nth_list_update)
next
  case (cancel i s t')
  then show ?case using cancelled_facts [OF cancel(2)] by (auto simp: lock_inv_def nth_list_update)
next
  case (tick s n)
  then show ?case by (simp add: lock_inv_def)
qed

lemma lock_inv_reachable: "reachable N (sys_new d o') s \<Longrightarrow> lock_inv s"
proof (induction rule: reachable.induct)
  case start
  then show ?case by (simp add: lock_inv_def sys_new_def)
qed (rule lock_inv_step)

section \<open>Closing\<close>

lemma tstep_stays_closed: "tstep N i p l t p' l' t' new \<Longrightarrow> closed p \<Longrightarrow> closed p'"
  by (induction rule: tstep.induct) auto

lemma pstep_stays_closed: "pstep N s s' \<Longrightarrow> closed (shared s) \<Longrightarrow> closed (shared s')"
  by (induction rule: pstep.induct) (auto dest: tstep_stays_closed)

text \<open>A call that is about to clear the list has set the flag.\<close>

definition close_inv :: "'t sys \<Rightarrow> bool" where
  "close_inv s \<longleftrightarrow> (CloseClear \<in> set (tasks s) \<longrightarrow> closed (shared s))"

lemma in_set_list_update: "x \<in> set (xs[i := y]) \<Longrightarrow> y \<noteq> x \<Longrightarrow> x \<in> set xs"
  using set_update_subset_insert [of xs i y] by auto

lemma tstep_close:
  "tstep N i p l t p' l' t' new \<Longrightarrow>
    (t' = CloseClear \<longrightarrow> closed p') \<and> (closed p \<longrightarrow> closed p') \<and> CloseClear \<notin> set new"
  by (induction rule: tstep.induct) auto

lemma close_inv_step: "pstep N s s' \<Longrightarrow> close_inv s \<Longrightarrow> close_inv s'"
proof (induction rule: pstep.induct)
  case (run i s p' l' t' new)
  have "closed p'" if "CloseClear \<in> set ((tasks s)[i := t'])"
  proof (cases "t' = CloseClear")
    case False
    then show ?thesis
      using in_set_list_update [OF that] run(3) tstep_close [OF run(2)] by (simp add: close_inv_def)
  qed (use tstep_close [OF run(2)] in simp)
  then show ?case using tstep_close [OF run(2)] by (auto simp: close_inv_def)
next
  case (work i s c c')
  then show ?case
    using in_set_list_update [of CloseClear "tasks s" i "Using c'"] by (auto simp: close_inv_def)
next
  case (cancel i s t')
  then show ?case
    using in_set_list_update [of CloseClear "tasks s" i t'] cancelled_facts [OF cancel(2)]
    by (auto simp: close_inv_def)
qed (auto simp: close_inv_def)

lemma close_inv_reachable: "reachable N (sys_new d o') s \<Longrightarrow> close_inv s"
proof (induction rule: reachable.induct)
  case start
  then show ?case by (simp add: close_inv_def sys_new_def)
qed (rule close_inv_step)

text \<open>Once the list of a closed pool is empty, it stays so: nobody holds the lock to push.\<close>

definition emptied :: "'t sys \<Rightarrow> bool" where
  "emptied s \<longleftrightarrow> closed (shared s) \<and> idle (shared s) = []"

lemma tstep_emptied:
  "tstep N i p l t p' l' t' new \<Longrightarrow> l = None \<Longrightarrow> idle p = [] \<Longrightarrow> idle p' = []"
  by (induction rule: tstep.induct) (auto simp: pop_idle_def split: if_splits)

lemma emptied_step: "pstep N s s' \<Longrightarrow> lock_inv s \<Longrightarrow> emptied s \<Longrightarrow> emptied s'"
proof (induction rule: pstep.induct)
  case (run i s p' l' t' new)
  then have "locked s = None" by (auto simp: lock_inv_def emptied_def)
  then show ?case
    using run tstep_emptied [OF run(2)] tstep_stays_closed [OF run(2)] by (simp add: emptied_def)
qed (simp_all add: emptied_def)

lemma emptied_for_ever: "reachable N s s' \<Longrightarrow> lock_inv s \<Longrightarrow> emptied s \<Longrightarrow> lock_inv s' \<and> emptied s'"
  by (induction rule: reachable.induct) (use lock_inv_step emptied_step in blast)+

text \<open>
  A closed pool in which no call is past its first step is at rest: every later call of \<open>get\<close> fails,
  every later call of \<open>close\<close> returns at once, and the idle connections stay where they are.
\<close>

definition at_rest :: "'t PooledConnection list \<Rightarrow> 't sys \<Rightarrow> bool" where
  "at_rest pcs s \<longleftrightarrow> closed (shared s) \<and> idle (shared s) = pcs \<and> locked s = None \<and>
    set (tasks s) \<subseteq> {GetStart, CloseStart, Finished}"

lemma tstep_at_rest:
  "tstep N i p l t p' l' t' new \<Longrightarrow> closed p \<Longrightarrow> l = None \<Longrightarrow> t \<in> {GetStart, CloseStart, Finished} \<Longrightarrow>
    p' = p \<and> l' = None \<and> t' = Finished \<and> new = []"
  by (induction rule: tstep.induct) auto

lemma at_rest_step: "pstep N s s' \<Longrightarrow> at_rest pcs s \<Longrightarrow> at_rest pcs s'"
proof (induction rule: pstep.induct)
  case (run i s p' l' t' new)
  then have "tasks s ! i \<in> {GetStart, CloseStart, Finished}" using nth_mem by (auto simp: at_rest_def)
  from tstep_at_rest [OF run(2) _ _ this] run show ?case
    using set_update_subset_insert [of "tasks s" i t'] by (auto simp: at_rest_def)
next
  case (work i s c c')
  then show ?case using nth_mem [OF work(1)] by (auto simp: at_rest_def)
next
  case (cancel i s t')
  then have "tasks s ! i \<in> {GetStart, CloseStart, Finished}" using nth_mem by (auto simp: at_rest_def)
  with cancel(2) have "t' = Finished" by auto
  with cancel(3) show ?case
    using set_update_subset_insert [of "tasks s" i t'] by (auto simp: at_rest_def)
qed (auto simp: at_rest_def)

lemma at_rest_for_ever: "reachable N s s' \<Longrightarrow> at_rest pcs s \<Longrightarrow> at_rest pcs s'"
  by (induction rule: reachable.induct) (use at_rest_step in blast)+

section \<open>What is in the pool\<close>

definition clean_inv :: "'t transport \<Rightarrow> 't sys \<Rightarrow> bool" where
  "clean_inv N s \<longleftrightarrow>
    (\<forall>pc \<in> set (idle (shared s)). fit_for_reuse N (clock (shared s)) pc) \<and>
    (\<forall>t \<in> set (tasks s). task_clean N (clock (shared s)) t)"

lemma tstep_clean:
  "tstep N i p l t p' l' t' new \<Longrightarrow> task_clean N (clock p) t \<Longrightarrow>
    \<forall>pc \<in> set (idle p). fit_for_reuse N (clock p) pc \<Longrightarrow>
    clock p' = clock p \<and> task_clean N (clock p) t' \<and> (\<forall>x \<in> set new. task_clean N (clock p) x) \<and>
    (\<forall>pc \<in> set (idle p'). fit_for_reuse N (clock p) pc)"
  by (induction rule: tstep.induct) (auto simp: pop_idle_Some fit_for_reuse_def)

lemma fit_later: "fit_for_reuse N now pc \<Longrightarrow> fit_for_reuse N (now + n) pc"
  by (simp add: fit_for_reuse_def)

lemma task_clean_later: "task_clean N now t \<Longrightarrow> task_clean N (now + n) t"
  by (cases t) (simp_all add: fit_later)

lemma clean_inv_step: "pstep N s s' \<Longrightarrow> clean_inv N s \<Longrightarrow> clean_inv N s'"
proof (induction rule: pstep.induct)
  case (run i s p' l' t' new)
  then have "task_clean N (clock (shared s)) (tasks s ! i)" by (simp add: clean_inv_def)
  note C = tstep_clean [OF run(2) this]
  have "set ((tasks s)[i := t']) \<subseteq> insert t' (set (tasks s))" by (rule set_update_subset_insert)
  then show ?case using C run(3) by (auto simp: clean_inv_def)
next
  case (work i s c c')
  then show ?case using set_update_subset_insert [of "tasks s" i "Using c'"] by (auto simp: clean_inv_def)
next
  case (cancel i s t')
  then show ?case
    using set_update_subset_insert [of "tasks s" i t'] cancelled_facts [OF cancel(2)]
    by (auto simp: clean_inv_def)
qed (auto simp: clean_inv_def fit_later task_clean_later)

lemma clean_inv_reachable: "reachable N (sys_new d o') s \<Longrightarrow> clean_inv N s"
proof (induction rule: reachable.induct)
  case start
  then show ?case by (simp add: clean_inv_def sys_new_def pool_new_def)
qed (rule clean_inv_step)

section \<open>Every call comes to an end\<close>

text \<open>Each step of a task lowers this weight, and each connection in the pool counts too.\<close>

fun rank :: "'t task \<Rightarrow> nat" where
  "rank GetEvict = 16"
| "rank GetStart = 15"
| "rank GetAcquire = 14"
| "rank GetHold = 13"
| "rank GetDial = 12"
| "rank (GetInit c) = 11"
| "rank (Using c) = 10"
| "rank (PutStart c) = 8"
| "rank (PutWait pc) = 7"
| "rank (PutPush pc) = 6"
| "rank CloseStart = 2"
| "rank CloseClear = 1"
| "rank Releasing = 1"
| "rank Finished = 0"

definition weight :: "'t sys \<Rightarrow> nat" where
  "weight s = sum_list (map rank (tasks s)) + 5 * length (idle (shared s))"

lemma tstep_rank:
  "tstep N i p l t p' l' t' new \<Longrightarrow>
    rank t' + sum_list (map rank new) + 5 * length (idle p') < rank t + 5 * length (idle p)"
  by (induction rule: tstep.induct) (auto simp: pop_idle_Some)

lemma weight_step:
  "i < length (tasks s) \<Longrightarrow> tstep N i (shared s) (locked s) (tasks s ! i) p' l' t' new \<Longrightarrow>
    weight \<lparr>shared = p', locked = l', tasks = (tasks s)[i := t'] @ new\<rparr> < weight s"
  using tstep_rank [of N i "shared s" "locked s" "tasks s ! i" p' l' t' new]
    sum_list_map_update [of i "tasks s" rank t'] by (simp add: weight_def)

text \<open>Dialling and the callback come back, with whatever result.\<close>

definition answering :: "(nat \<Rightarrow> 't res) \<Rightarrow> 't PoolOptions \<Rightarrow> bool" where
  "answering d o' \<longleftrightarrow>
    (\<forall>n. d n \<noteq> Pending \<and> d n \<noteq> Hang) \<and>
    (\<forall>f c. init_conn o' = Some f \<longrightarrow> f c \<noteq> Pending \<and> f c \<noteq> Hang)"

lemma not_stuck_cases: "r \<noteq> Pending \<Longrightarrow> r \<noteq> Hang \<Longrightarrow> (\<exists>a. r = Ok a) \<or> (\<exists>e. r = Err e) \<or> r = Panic"
  by (cases r) auto

definition can_move ::
  "'t transport \<Rightarrow> nat \<Rightarrow> 't ConnPool \<Rightarrow> nat option \<Rightarrow> 't task \<Rightarrow> bool" where
  "can_move N i p l t \<longleftrightarrow> (\<exists>p' l' t' new. tstep N i p l t p' l' t' new)"

lemma can_moveI: "tstep N i p l t p' l' t' new \<Longrightarrow> can_move N i p l t"
  unfolding can_move_def by blast

lemmas moves = tstep.intros [THEN can_moveI]

text \<open>A task that waits for neither lock nor permit can move.\<close>

lemma tstep_ready:
  assumes "t \<noteq> Finished" "answering (dial p) (opts p)" "pushing t \<longleftrightarrow> l = Some i"
    "t = GetAcquire \<longrightarrow> 0 < permits p"
    "t \<in> {GetStart, CloseStart} \<or> (\<exists>pc. t = PutWait pc) \<longrightarrow> l = None"
    "\<And>c. t = GetInit c \<Longrightarrow> init_conn (opts p) \<noteq> None"
  shows "can_move N i p l t"
proof (cases t)
  case GetStart
  then show ?thesis using assms by (cases "closed p") (auto intro: moves)
next
  case GetHold
  show ?thesis
  proof (cases "pop_idle (idle p)")
    case None
    then show ?thesis using GetHold by (auto intro: moves)
  next
    case (Some a)
    then show ?thesis
      using GetHold by (cases a; cases "expired p (fst a)") (auto intro: moves)
  qed
next
  case GetDial
  then show ?thesis
    using assms(2) not_stuck_cases [of "dial p (dialled p)"]
    by (auto simp: answering_def intro: moves)
next
  case (GetInit c)
  then obtain f where f: "init_conn (opts p) = Some f" using assms(6) by auto
  then have "f c \<noteq> Pending" "f c \<noteq> Hang" using assms(2) by (auto simp: answering_def)
  then show ?thesis using GetInit f not_stuck_cases [of "f c"] by (auto intro: moves)
next
  case (Using c)
  then show ?thesis by (auto intro: moves)
next
  case (PutStart c)
  then show ?thesis by (cases "buffer_size N c = 0") (auto intro: moves)
next
  case (PutWait pc)
  then show ?thesis using assms by (cases "closed p") (auto intro: moves)
next
  case CloseStart
  then show ?thesis using assms by (cases "closed p") (auto intro: moves)
qed (use assms in \<open>auto intro: moves\<close>)

text \<open>The callback runs only where there is one.\<close>

definition init_inv :: "'t sys \<Rightarrow> bool" where
  "init_inv s \<longleftrightarrow> (\<forall>c. GetInit c \<in> set (tasks s) \<longrightarrow> init_conn (opts (shared s)) \<noteq> None)"

lemma tstep_init:
  "tstep N i p l t p' l' t' new \<Longrightarrow>
    (t' = GetInit c \<longrightarrow> init_conn (opts p) \<noteq> None) \<and> GetInit c \<notin> set new \<and> opts p' = opts p"
  by (induction rule: tstep.induct) auto

lemma init_inv_step: "pstep N s s' \<Longrightarrow> init_inv s \<Longrightarrow> init_inv s'"
proof (induction rule: pstep.induct)
  case (run i s p' l' t' new)
  then show ?case
    using tstep_init [OF run(2)] set_update_subset_insert [of "tasks s" i t']
    unfolding init_inv_def by fastforce
next
  case (work i s c c')
  then show ?case
    using set_update_subset_insert [of "tasks s" i "Using c'"] unfolding init_inv_def by fastforce
next
  case (cancel i s t')
  have "t' \<noteq> GetInit c" for c using cancel(2) by (cases "tasks s ! i") auto
  then show ?case
    using cancel set_update_subset_insert [of "tasks s" i t'] unfolding init_inv_def by fastforce
qed (auto simp: init_inv_def)

lemma init_inv_reachable: "reachable N (sys_new d o') s \<Longrightarrow> init_inv s"
proof (induction rule: reachable.induct)
  case start
  then show ?case by (simp add: init_inv_def sys_new_def)
qed (rule init_inv_step)

text \<open>No deadlock: while a task is unfinished, one of them can move.\<close>

lemma some_task_moves:
  assumes "reachable N (sys_new d o') s" "answering d o'" "0 < pool_size o'"
    and t: "t \<in> set (tasks s)" "t \<noteq> Finished"
  shows "\<exists>i < length (tasks s). can_move N i (shared s) (locked s) (tasks s ! i)"
proof -
  have env: "answering (dial (shared s)) (opts (shared s))" "opts (shared s) = o'"
    using opts_reachable [OF assms(1)] assms(2) by simp_all
  have L: "\<And>j. j < length (tasks s) \<Longrightarrow> pushing (tasks s ! j) \<longleftrightarrow> locked s = Some j"
    "\<And>j. locked s = Some j \<Longrightarrow> j < length (tasks s)"
    using lock_inv_reachable [OF assms(1)] by (auto simp: lock_inv_def)
  have I: "init_conn (opts (shared s)) \<noteq> None" if "j < length (tasks s)" "tasks s ! j = GetInit c" for j c
    using init_inv_reachable [OF assms(1)] that by (metis init_inv_def nth_mem)
  show ?thesis
  proof (cases "locked s")
    case (Some k)
    have k: "k < length (tasks s)" "pushing (tasks s ! k)" using L Some by auto
    then have "can_move N k (shared s) (locked s) (tasks s ! k)"
      using Some by (cases "tasks s ! k") (auto intro: moves)
    then show ?thesis using k by blast
  next
    case None
    obtain i where i: "i < length (tasks s)" "tasks s ! i = t" using t(1) by (auto simp: in_set_conv_nth)
    show ?thesis
    proof (cases "t = GetAcquire \<and> permits (shared s) = 0")
      case False
      then have "can_move N i (shared s) (locked s) (tasks s ! i)"
        using tstep_ready [of t "shared s" "locked s" i N] t(2) env(1) L(1) [OF i(1)] I [OF i(1)] None i
        by auto
      then show ?thesis using i by blast
    next
      case True
      then have "0 < holders (tasks s)"
        using permit_inv_reachable [OF assms(1)] assms(3) env(2) by (simp add: permit_inv_def)
      then obtain h where h: "h \<in> set (tasks s)" "holding h"
        by (auto simp: holders_def filter_empty_conv)
      obtain j where j: "j < length (tasks s)" "tasks s ! j = h" using h(1) by (auto simp: in_set_conv_nth)
      have "h \<noteq> Finished" "h \<noteq> GetAcquire" using h(2) by auto
      then have "can_move N j (shared s) (locked s) (tasks s ! j)"
        using tstep_ready [of h "shared s" "locked s" j N] h(2) env(1) L(1) [OF j(1)] I [OF j(1)] None j
        by auto
      then show ?thesis using j by blast
    qed
  qed
qed

text \<open>
  Runs in which the tasks move by themselves: nobody calls anything new and nobody is cancelled.
  Each step lowers the weight, so there is no endless run, whoever moves.
\<close>

inductive own_steps :: "'t transport \<Rightarrow> nat \<Rightarrow> 't sys \<Rightarrow> 't sys \<Rightarrow> bool" for N where
  own_start: "own_steps N 0 s s"
| own_move: "own_steps N n s s' \<Longrightarrow> i < length (tasks s') \<Longrightarrow>
    tstep N i (shared s') (locked s') (tasks s' ! i) p' l' t' new \<Longrightarrow>
    own_steps N (Suc n) s \<lparr>shared = p', locked = l', tasks = (tasks s')[i := t'] @ new\<rparr>"

lemma own_steps_reachable: "own_steps N n s s' \<Longrightarrow> reachable N s s'"
  by (induction rule: own_steps.induct) (auto intro: reachable.intros pstep.run)

lemma own_steps_weight: "own_steps N n s s' \<Longrightarrow> n + weight s' \<le> weight s"
proof (induction rule: own_steps.induct)
  case (own_move n s s' i p' l' t' new)
  then show ?case using weight_step [OF own_move(2,3)] by linarith
qed simp

lemma rank_le: "rank t \<le> 16"
  by (cases t) simp_all

lemma weight_le: "weight s \<le> 16 * length (tasks s) + 5 * length (idle (shared s))"
proof -
  have "sum_list (map rank ts) \<le> 16 * length ts" for ts :: "'a task list"
    by (induction ts) (use rank_le in \<open>auto intro: add_mono\<close>)
  then show ?thesis by (simp add: weight_def)
qed

text \<open>A run that cannot go on has finished every task and freed every permit.\<close>

lemma stuck_finished:
  assumes "reachable N (sys_new d o') s" "answering d o'" "0 < pool_size o'"
    and "\<not> (\<exists>i < length (tasks s). can_move N i (shared s) (locked s) (tasks s ! i))"
  shows "(\<forall>t \<in> set (tasks s). t = Finished) \<and> permits (shared s) = pool_size o'"
proof -
  have f: "\<forall>t \<in> set (tasks s). t = Finished" using some_task_moves [OF assms(1-3)] assms(4) by blast
  then have "holders (tasks s) = 0" by (auto simp: holders_def filter_empty_conv)
  then show ?thesis
    using f permit_inv_reachable [OF assms(1)] opts_reachable [OF assms(1)] by (simp add: permit_inv_def)
qed

section \<open>A call of get that runs alone\<close>

text \<open>
  The states of a call that is not yet at its end, and the runs in which only this call moves, up to
  the point where it has a guard or has failed.
\<close>

fun getting :: "'t task \<Rightarrow> bool" where
  "getting GetStart = True"
| "getting GetAcquire = True"
| "getting GetHold = True"
| "getting GetEvict = True"
| "getting GetDial = True"
| "getting (GetInit c) = True"
| "getting Releasing = True"
| "getting _ = False"

inductive alone :: "'t transport \<Rightarrow> nat \<Rightarrow> 't ConnPool \<Rightarrow> 't task \<Rightarrow> 't ConnPool \<Rightarrow> 't task \<Rightarrow> bool"
  for N i where
  at_end: "\<not> getting t \<Longrightarrow> alone N i p t p t"
| moves_on: "getting t \<Longrightarrow> tstep N i p None t p1 None t1 [] \<Longrightarrow> alone N i p1 t1 q t' \<Longrightarrow>
    alone N i p t q t'"

inductive_simps tstep_getting:
  "tstep N i p None GetStart p' None t' []"
  "tstep N i p None GetAcquire p' None t' []"
  "tstep N i p None GetHold p' None t' []"
  "tstep N i p None GetEvict p' None t' []"
  "tstep N i p None GetDial p' None t' []"
  "tstep N i p None (GetInit c) p' None t' []"
  "tstep N i p None Releasing p' None t' []"

text \<open>The task and the pool that the result of a sequential call stands for, if it comes back.\<close>

fun ended :: "'t connection res \<times> 't ConnPool \<Rightarrow> ('t task \<times> 't ConnPool) option" where
  "ended (Ok c, q) = Some (Using c, q)"
| "ended (Err e, q) = Some (Finished, q)"
| "ended (Panic, q) = Some (Finished, q)"
| "ended (r, q) = None"

text \<open>What is left of the sequential call in each state of the task.\<close>

definition taken :: "'t ConnPool \<Rightarrow> ('t task \<times> 't ConnPool) option" where
  "taken p = (case pop_idle (idle p) of
      Some (pc, rest) \<Rightarrow>
        if expired p pc then ended (pool_get (release (p\<lparr>idle := rest\<rparr>)))
        else Some (Using (prepare (opts p) (pc_conn pc)), p\<lparr>idle := rest\<rparr>)
    | None \<Rightarrow> ended (pool_dial p))"

fun left_of_get :: "'t task \<Rightarrow> 't ConnPool \<Rightarrow> ('t task \<times> 't ConnPool) option" where
  "left_of_get GetStart p = ended (pool_get p)"
| "left_of_get GetAcquire p = (if permits p = 0 then None else taken (p\<lparr>permits := permits p - 1\<rparr>))"
| "left_of_get GetHold p = taken p"
| "left_of_get GetEvict p = ended (pool_get (release p))"
| "left_of_get GetDial p = ended (pool_dial p)"
| "left_of_get (GetInit c) p =
    (case init_conn (opts p) of None \<Rightarrow> None | Some f \<Rightarrow> ended (unwind (f c) p))"
| "left_of_get Releasing p = Some (Finished, release p)"
| "left_of_get t p = Some (t, p)"

lemma ended_pool_get:
  "ended (pool_get p) = (if closed p then Some (Finished, p) else left_of_get GetAcquire p)"
  by (simp add: pool_get.simps [of p] taken_def Let_def split: option.splits prod.splits)

lemma ended_pool_dial:
  "ended (pool_dial p) = (case dial p (dialled p) of
      Ok s \<Rightarrow> left_of_get
        (let c = prepare (opts p) (connection_new s) in if init_conn (opts p) = None then Using c else GetInit c)
        (p\<lparr>dialled := dialled p + 1\<rparr>)
    | Err e \<Rightarrow> Some (Finished, release (p\<lparr>dialled := dialled p + 1\<rparr>))
    | Panic \<Rightarrow> Some (Finished, release (p\<lparr>dialled := dialled p + 1\<rparr>))
    | _ \<Rightarrow> None)"
  by (cases "dial p (dialled p)"; cases "init_conn (opts p)") (simp_all add: pool_dial_def unwind_def Let_def)

lemma left_of_get_step:
  assumes "getting t" "tstep N i p None t p1 None t1 []"
  shows "left_of_get t1 p1 = left_of_get t p"
proof (cases t)
  case GetStart
  then show ?thesis using assms(2) by (auto simp: tstep_getting ended_pool_get simp del: left_of_get.simps(2))
next
  case GetDial
  then show ?thesis using assms(2) by (auto simp: tstep_getting ended_pool_dial Let_def)
qed (use assms in \<open>auto simp: tstep_getting taken_def unwind_def\<close>)

lemma left_of_get_moves:
  assumes "getting t" "left_of_get t p \<noteq> None"
  shows "\<exists>p1 t1. tstep N i p None t p1 None t1 []"
proof (cases t)
  case GetHold
  then show ?thesis by (auto simp: tstep_getting split: option.split) (metis option.exhaust surj_pair)
next
  case GetDial
  then show ?thesis using assms(2) by (cases "dial p (dialled p)") (auto simp: tstep_getting ended_pool_dial)
next
  case (GetInit c)
  then obtain f where "init_conn (opts p) = Some f" using assms(2) by (auto split: option.splits)
  then show ?thesis using assms(2) GetInit by (cases "f c") (auto simp: tstep_getting unwind_def)
qed (use assms in \<open>auto simp: tstep_getting split: if_splits\<close>)

lemma alone_left_of_get: "alone N i p t q t' \<Longrightarrow> left_of_get t p = Some (t', q)"
proof (induction rule: alone.induct)
  case (at_end t p)
  then show ?case by (cases t) auto
qed (simp add: left_of_get_step)

lemma left_of_get_alone: "left_of_get t p = Some (t', q) \<Longrightarrow> alone N i p t q t'"
proof (induction "rank t + 5 * length (idle p)" arbitrary: t p rule: less_induct)
  case less
  show ?case
  proof (cases "getting t")
    case True
    then obtain p1 t1 where s: "tstep N i p None t p1 None t1 []"
      using left_of_get_moves [of t p N i] less.prems by auto
    have "alone N i p1 t1 q t'"
      using less.hyps [of t1 p1] tstep_rank [OF s] left_of_get_step [OF True s] less.prems by simp
    then show ?thesis by (rule alone.moves_on [OF True s])
  next
    case False
    then have "t' = t" "q = p" using less.prems by (cases t; simp)+
    then show ?thesis using alone.at_end [OF False] by simp
  qed
qed

text \<open>Running alone is a run of the system.\<close>

lemma alone_run:
  "alone N i p t q t' \<Longrightarrow> i < length ts \<Longrightarrow> ts ! i = t \<Longrightarrow>
    reachable N \<lparr>shared = p, locked = None, tasks = ts\<rparr> \<lparr>shared = q, locked = None, tasks = ts[i := t']\<rparr>"
proof (induction arbitrary: ts rule: alone.induct)
  case (at_end t p)
  then show ?case using list_update_id [of ts i] by (simp add: reachable.start)
next
  case (moves_on t p p1 t1 q t')
  have "pstep N \<lparr>shared = p, locked = None, tasks = ts\<rparr> \<lparr>shared = p1, locked = None, tasks = ts[i := t1]\<rparr>"
    using pstep.run [of i "\<lparr>shared = p, locked = None, tasks = ts\<rparr>" N p1 None t1 "[]"] moves_on by simp
  from reachable_trans [OF reachable_step [OF this] moves_on.IH [of "ts[i := t1]"]] moves_on.prems
  show ?case by simp
qed

lemma pool_get_run:
  assumes "pool_get p = r" "ended r = Some (t', q)" "i < length ts" "ts ! i = GetStart"
  shows "reachable N \<lparr>shared = p, locked = None, tasks = ts\<rparr>
    \<lparr>shared = q, locked = None, tasks = ts[i := t']\<rparr>"
proof (rule alone_run)
  show "alone N i p GetStart q t'"
    using assms(1,2) by (intro left_of_get_alone) simp
qed (use assms in simp_all)

end
