(* ===== verification/Pool_Owners.thy ===== *)
theory Pool_Owners imports Pool_Concurrent "HOL-Library.Multiset" begin

text \<open>
  Ownership in the concurrent pool: every connection that has been dialled is in at most one place,
  with one user, on its way back, or idle. Connections are told apart by the number of the call that
  dialled them, which the transport carries along.
\<close>

section \<open>Who has which connection\<close>

fun task_ids :: "('t \<Rightarrow> nat) \<Rightarrow> 't task \<Rightarrow> nat multiset" where
  "task_ids ident (GetInit c) = {#ident (stream c)#}"
| "task_ids ident (Using c) = {#ident (stream c)#}"
| "task_ids ident (PutStart c) = {#ident (stream c)#}"
| "task_ids ident (PutWait pc) = {#ident (stream (pc_conn pc))#}"
| "task_ids ident (PutPush pc) = {#ident (stream (pc_conn pc))#}"
| "task_ids ident _ = {#}"

definition idle_ids :: "('t \<Rightarrow> nat) \<Rightarrow> 't ConnPool \<Rightarrow> nat multiset" where
  "idle_ids ident p = image_mset (\<lambda>pc. ident (stream (pc_conn pc))) (mset (idle p))"

definition all_ids :: "('t \<Rightarrow> nat) \<Rightarrow> 't sys \<Rightarrow> nat multiset" where
  "all_ids ident s = idle_ids ident (shared s) + sum_list (map (task_ids ident) (tasks s))"

text \<open>The dialling function numbers its connections, and the callback keeps the number.\<close>

definition numbers :: "('t \<Rightarrow> nat) \<Rightarrow> (nat \<Rightarrow> 't res) \<Rightarrow> 't PoolOptions \<Rightarrow> bool" where
  "numbers ident d o' \<longleftrightarrow>
    (\<forall>n s. d n = Ok s \<longrightarrow> ident s = n) \<and>
    (\<forall>f c c'. init_conn o' = Some f \<longrightarrow> f c = Ok c' \<longrightarrow> ident (stream c') = ident (stream c))"

text \<open>Runs in which whoever uses a connection does not put another one in its place.\<close>

definition same_connections :: "('t \<Rightarrow> nat) \<Rightarrow> 't sys \<Rightarrow> 't sys \<Rightarrow> bool" where
  "same_connections ident s s' \<longleftrightarrow>
    (\<forall>i < length (tasks s). \<forall>c c'. tasks s ! i = Using c \<longrightarrow> tasks s' ! i = Using c' \<longrightarrow>
      ident (stream c') = ident (stream c))"

inductive honest :: "'t transport \<Rightarrow> ('t \<Rightarrow> nat) \<Rightarrow> 't sys \<Rightarrow> 't sys \<Rightarrow> bool" for N ident s0 where
  begins: "honest N ident s0 s0"
| moves: "honest N ident s0 s \<Longrightarrow> pstep N s s' \<Longrightarrow> same_connections ident s s' \<Longrightarrow> honest N ident s0 s'"

section \<open>The invariant\<close>

definition owned_once :: "('t \<Rightarrow> nat) \<Rightarrow> 't sys \<Rightarrow> bool" where
  "owned_once ident s \<longleftrightarrow>
    (\<forall>x. count (all_ids ident s) x \<le> (if x < dialled (shared s) then 1 else 0))"

lemma stream_connection_new [simp]: "stream (connection_new s) = s"
  by (simp add: connection_new_def)

lemma tstep_ids:
  assumes "tstep N i p l t p' l' t' new" "numbers ident (dial p) (opts p)"
  shows "idle_ids ident p' + task_ids ident t' + sum_list (map (task_ids ident) new) \<subseteq>#
      idle_ids ident p + task_ids ident t + (if dialled p' = dialled p then {#} else {#dialled p#}) \<and>
    (dialled p' = dialled p \<or> dialled p' = Suc (dialled p)) \<and> dial p' = dial p \<and> opts p' = opts p"
  using assms
  by (induction rule: tstep.induct)
    (auto simp: idle_ids_def pop_idle_Some numbers_def)

lemma owned_once_grows:
  assumes "owned_once ident s" "all_ids ident s' \<subseteq>#
      all_ids ident s + (if dialled (shared s') = dialled (shared s) then {#} else {#dialled (shared s)#})"
    and "dialled (shared s') = dialled (shared s) \<or> dialled (shared s') = Suc (dialled (shared s))"
  shows "owned_once ident s'"
  unfolding owned_once_def
proof
  fix x
  have "count (all_ids ident s') x \<le>
      count (all_ids ident s + (if dialled (shared s') = dialled (shared s) then {#} else {#dialled (shared s)#})) x"
    using assms(2) by (simp add: subseteq_mset_def)
  moreover have "count (all_ids ident s) x \<le> (if x < dialled (shared s) then 1 else 0)"
    using assms(1) unfolding owned_once_def by blast
  ultimately show "count (all_ids ident s') x \<le> (if x < dialled (shared s') then 1 else 0)"
    using assms(3) by (auto simp del: count_eq_zero_iff split: if_splits)
qed

lemma all_ids_task:
  assumes "i < length (tasks s)" "task_ids ident t' \<subseteq># task_ids ident (tasks s ! i)"
  shows "all_ids ident (s\<lparr>tasks := (tasks s)[i := t']\<rparr>) \<subseteq># all_ids ident s"
proof -
  have "sum_list (map (task_ids ident) ((tasks s)[i := t'])) + task_ids ident (tasks s ! i) =
      sum_list (map (task_ids ident) (tasks s)) + task_ids ident t'"
    by (rule sum_list_map_update [OF assms(1)])
  also have "\<dots> \<subseteq># sum_list (map (task_ids ident) (tasks s)) + task_ids ident (tasks s ! i)"
    using assms(2) by simp
  finally show ?thesis by (simp add: all_ids_def)
qed

lemma all_ids_run:
  assumes i: "i < length (tasks s)"
    and st: "tstep N i (shared s) (locked s) (tasks s ! i) p' l' t' new"
    and n: "numbers ident (dial (shared s)) (opts (shared s))"
  shows "all_ids ident \<lparr>shared = p', locked = l', tasks = (tasks s)[i := t'] @ new\<rparr> \<subseteq>#
    all_ids ident s + (if dialled p' = dialled (shared s) then {#} else {#dialled (shared s)#})"
proof -
  define f where "f = task_ids ident"
  have "sum_list (map f ((tasks s)[i := t'])) + f (tasks s ! i) = sum_list (map f (tasks s)) + f t'"
    by (rule sum_list_map_update [OF i])
  then have "idle_ids ident p' + sum_list (map f ((tasks s)[i := t'])) + sum_list (map f new) + f (tasks s ! i) =
      idle_ids ident p' + f t' + sum_list (map f new) + sum_list (map f (tasks s))"
    by (simp add: ac_simps)
  also have "\<dots> \<subseteq># idle_ids ident (shared s) + f (tasks s ! i) +
      (if dialled p' = dialled (shared s) then {#} else {#dialled (shared s)#}) + sum_list (map f (tasks s))"
    using tstep_ids [OF st n] unfolding f_def by (intro subset_mset.add_right_mono) blast
  finally have "idle_ids ident p' + sum_list (map f ((tasks s)[i := t'])) + sum_list (map f new) + f (tasks s ! i) \<subseteq>#
      idle_ids ident (shared s) + sum_list (map f (tasks s)) +
      (if dialled p' = dialled (shared s) then {#} else {#dialled (shared s)#}) + f (tasks s ! i)"
    by (simp add: ac_simps)
  then show ?thesis by (simp add: all_ids_def f_def ac_simps)
qed

lemma owned_once_step:
  assumes "pstep N s s'" "same_connections ident s s'" "owned_once ident s"
    and "numbers ident (dial (shared s)) (opts (shared s))"
  shows "owned_once ident s' \<and> dial (shared s') = dial (shared s) \<and> opts (shared s') = opts (shared s)"
  using assms
proof (induction rule: pstep.induct)
  case (run i s p' l' t' new)
  note facts = tstep_ids [OF run(2,5)]
  have "owned_once ident \<lparr>shared = p', locked = l', tasks = (tasks s)[i := t'] @ new\<rparr>"
    by (rule owned_once_grows [OF run(4)]) (use all_ids_run [OF run(1,2,5)] facts in simp_all)
  then show ?case using facts by simp
next
  case (work i s c c')
  then have "ident (stream c') = ident (stream c)" by (auto simp: same_connections_def)
  then have "all_ids ident (s\<lparr>tasks := (tasks s)[i := Using c']\<rparr>) \<subseteq># all_ids ident s"
    using work(1,2) by (intro all_ids_task) simp_all
  then show ?case using work(4) by (auto intro: owned_once_grows)
next
  case (cancel i s t')
  then have "task_ids ident t' = {#}" by (cases "tasks s ! i") auto
  then have "all_ids ident (s\<lparr>tasks := (tasks s)[i := t']\<rparr>) \<subseteq># all_ids ident s"
    using cancel(1) by (intro all_ids_task) simp_all
  then show ?case using cancel(4) by (auto intro: owned_once_grows)
qed (auto simp: owned_once_def all_ids_def idle_ids_def)

lemma owned_once_honest:
  assumes "honest N ident (sys_new d o') s" "numbers ident d o'"
  shows "owned_once ident s \<and> dial (shared s) = d \<and> opts (shared s) = o'"
  using assms(1)
proof (induction rule: honest.induct)
  case begins
  then show ?case by (simp add: owned_once_def all_ids_def idle_ids_def sys_new_def pool_new_def)
next
  case (moves s s')
  then show ?case using owned_once_step [OF moves(2,3)] assms(2) by simp
qed

text \<open>Two places, two connections.\<close>

lemma owned_once_count: "owned_once ident s \<Longrightarrow> count (all_ids ident s) x \<le> 1"
  unfolding owned_once_def by (erule allE [of _ x]) (simp split: if_splits)

lemma count_sum_list: "count (sum_list (map f xs)) x = sum_list (map (\<lambda>a. count (f a) x) xs)"
  by (induction xs) auto

lemma two_in_sum:
  fixes g :: "'a \<Rightarrow> nat"
  assumes "i < length xs" "j < length xs" "i \<noteq> j"
  shows "g (xs ! i) + g (xs ! j) \<le> sum_list (map g xs)"
proof -
  have "g (xs ! i) + g (xs ! j) = (\<Sum>k \<in> {i, j}. g (xs ! k))" using assms(3) by simp
  also have "\<dots> \<le> (\<Sum>k \<in> {0..<length xs}. g (xs ! k))" using assms(1,2) by (intro sum_mono2) auto
  finally show ?thesis by (simp add: sum_list_sum_nth)
qed

lemma owned_once_tasks:
  assumes "owned_once ident s" "i < length (tasks s)" "j < length (tasks s)" "i \<noteq> j"
    and "x \<in># task_ids ident (tasks s ! i)"
  shows "x \<notin># task_ids ident (tasks s ! j)"
proof
  assume "x \<in># task_ids ident (tasks s ! j)"
  then have "0 < count (task_ids ident (tasks s ! j)) x" "0 < count (task_ids ident (tasks s ! i)) x"
    using assms(5) by simp_all
  moreover have "count (task_ids ident (tasks s ! i)) x + count (task_ids ident (tasks s ! j)) x \<le>
      sum_list (map (\<lambda>t. count (task_ids ident t) x) (tasks s))"
    by (rule two_in_sum [OF assms(2-4)])
  moreover have "sum_list (map (\<lambda>t. count (task_ids ident t) x) (tasks s)) \<le> count (all_ids ident s) x"
    by (simp add: all_ids_def count_sum_list)
  moreover have "count (all_ids ident s) x \<le> 1" by (rule owned_once_count [OF assms(1)])
  ultimately show False by linarith
qed

lemma owned_once_idle:
  assumes "owned_once ident s" "i < length (tasks s)" "x \<in># task_ids ident (tasks s ! i)"
  shows "x \<notin># idle_ids ident (shared s)"
proof
  assume "x \<in># idle_ids ident (shared s)"
  then have "0 < count (idle_ids ident (shared s)) x" "0 < count (task_ids ident (tasks s ! i)) x"
    using assms(3) by simp_all
  moreover have "count (task_ids ident (tasks s ! i)) x \<le> sum_list (map (\<lambda>t. count (task_ids ident t) x) (tasks s))"
    using assms(2) by (intro member_le_sum_list) auto
  moreover have "count (all_ids ident s) x =
      count (idle_ids ident (shared s)) x + sum_list (map (\<lambda>t. count (task_ids ident t) x) (tasks s))"
    by (simp add: all_ids_def count_sum_list)
  moreover have "count (all_ids ident s) x \<le> 1" by (rule owned_once_count [OF assms(1)])
  ultimately show False by linarith
qed

text \<open>
  What every step that leaves the users alone preserves holds after a call of \<open>get\<close> that runs alone,
  if it held before.
\<close>

definition same_users :: "'t sys \<Rightarrow> 't sys \<Rightarrow> bool" where
  "same_users s s' \<longleftrightarrow>
    (\<forall>i < length (tasks s). \<forall>c c'. tasks s ! i = Using c \<longrightarrow> tasks s' ! i = Using c' \<longrightarrow> c' = c)"

lemma same_users_connections: "same_users s s' \<Longrightarrow> same_connections ident s s'"
  by (auto simp: same_users_def same_connections_def)

lemma alone_keeps:
  assumes "alone N i p t q t'" "P \<lparr>shared = p, locked = None, tasks = ts\<rparr>" "i < length ts" "ts ! i = t"
    and step: "\<And>s s'. P s \<Longrightarrow> pstep N s s' \<Longrightarrow> same_users s s' \<Longrightarrow> P s'"
  shows "P \<lparr>shared = q, locked = None, tasks = ts[i := t']\<rparr>"
  using assms(1-4)
proof (induction arbitrary: ts rule: alone.induct)
  case (at_end t p)
  then show ?case using list_update_id [of ts i] by simp
next
  case (moves_on t p p1 t1 q t')
  let ?s = "\<lparr>shared = p, locked = None, tasks = ts\<rparr>" and ?s1 = "\<lparr>shared = p1, locked = None, tasks = ts[i := t1]\<rparr>"
  have "pstep N ?s ?s1" using pstep.run [of i ?s N p1 None t1 "[]"] moves_on by simp
  moreover have "same_users ?s ?s1"
    using moves_on by (auto simp: same_users_def nth_list_update)
  ultimately have "P ?s1" by (rule step [OF moves_on.prems(1)])
  from moves_on.IH [OF this] show ?case using moves_on.prems(2) by simp
qed

lemma pool_get_keeps:
  assumes "P \<lparr>shared = p, locked = None, tasks = ts\<rparr>" "ended (pool_get p) = Some (t', q)"
    and step: "\<And>s s'. P s \<Longrightarrow> pstep N s s' \<Longrightarrow> same_users s s' \<Longrightarrow> P s'"
  shows "P \<lparr>shared = q, locked = None, tasks = ts @ [t']\<rparr>"
proof -
  let ?s = "\<lparr>shared = p, locked = None, tasks = ts\<rparr>"
  have "same_users ?s (?s\<lparr>tasks := ts @ [GetStart]\<rparr>)" by (simp add: same_users_def nth_append)
  then have "P \<lparr>shared = p, locked = None, tasks = ts @ [GetStart]\<rparr>"
    using step [OF assms(1) pstep.call_get [of N ?s]] by simp
  moreover have "alone N (length ts) p GetStart q t'" using assms(2) by (intro left_of_get_alone) simp
  ultimately show ?thesis using alone_keeps [of N "length ts" p GetStart q t' P "ts @ [GetStart]"] step by simp
qed

lemma pool_get_honest:
  assumes "honest N ident s0 \<lparr>shared = p, locked = None, tasks = ts\<rparr>" "ended (pool_get p) = Some (t', q)"
  shows "honest N ident s0 \<lparr>shared = q, locked = None, tasks = ts @ [t']\<rparr>"
  by (rule pool_get_keeps [where P = "honest N ident s0" and N = N, OF assms])
    (rule honest.moves, assumption, assumption, erule same_users_connections)

end
