(* ===== verification/Client.thy ===== *)
theory Client imports Pool begin

text \<open>
  \<open>src/client.rs\<close>: the client. A command method builds the argument list, runs it on a pooled
  connection (\<open>process_cmd\<close>) and turns the reply into its result type; the conversions the methods
  share are the first group of definitions, the methods follow in the order of the source. Durations
  are nanoseconds, a \<open>SystemTime\<close> is nanoseconds since the epoch.
\<close>

section \<open>The client\<close>

definition DEFAULT_ADDR :: string where
  "DEFAULT_ADDR = ''127.0.0.1:6379''"

record ClientOptions =
  addr :: string
  password :: "string option"
  db :: int
  co_pool_size :: nat
  co_dial_timeout :: nat
  co_read_timeout :: "nat option"
  co_write_timeout :: "nat option"
  co_idle_timeout :: "nat option"

definition ClientOptions_default :: ClientOptions where
  "ClientOptions_default =
    \<lparr>addr = DEFAULT_ADDR, password = None, db = 0, co_pool_size = 10, co_dial_timeout = from_secs 5,
     co_read_timeout = None, co_write_timeout = None, co_idle_timeout = None\<rparr>"

record 't Client =
  client_pool :: "'t ConnPool"
  client_opts :: ClientOptions

text \<open>
  The network as the client sees it: what the \<open>n\<close>-th attempt to connect to an address gives, and
  after how long (\<open>None\<close>: never).
\<close>

type_synonym 't network = "string \<Rightarrow> nat \<Rightarrow> (nat \<times> 't res) option"

definition dial_tcp :: "'t network \<Rightarrow> nat \<Rightarrow> string \<Rightarrow> nat \<Rightarrow> 't res" where
  "dial_tcp net limit a n =
    (case net a n of
       None \<Rightarrow> Err from_elapsed
     | Some (d, r) \<Rightarrow> if limit < d then Err from_elapsed else r)"

text \<open>The callback for a new connection: AUTH when there is a password, SELECT for a positive index.\<close>

definition check_ok :: "Value \<Rightarrow> unit res" where
  "check_ok v =
    (case v of
       VStatus s \<Rightarrow> if eq_ignore_ascii_case s ''OK'' then Ok () else Err (ERedis (RedisError s))
     | _ \<Rightarrow> Ok ())"

definition init_command ::
  "env \<Rightarrow> 't transport \<Rightarrow> string list \<Rightarrow> 't connection \<Rightarrow> unit res \<times> 't connection" where
  "init_command E N args c = and_then (roundtrip E N args c) (\<lambda>v c. (check_ok v, c))"

definition init_callback ::
  "env \<Rightarrow> 't transport \<Rightarrow> string option \<Rightarrow> int \<Rightarrow> 't connection \<Rightarrow> 't connection res" where
  "init_callback E N pwd i c =
    (case and_then
            (case pwd of
               Some w \<Rightarrow> init_command E N [''AUTH'', w] c
             | None \<Rightarrow> (Ok (), c))
            (\<lambda>_ c. if 0 < i then init_command E N [''SELECT'', show_int i] c else (Ok (), c)) of
       (r, c) \<Rightarrow> map_ok (\<lambda>_. c) r)"

definition Client_new :: "env \<Rightarrow> 't transport \<Rightarrow> 't network \<Rightarrow> ClientOptions \<Rightarrow> 't Client" where
  "Client_new E N net o' =
    \<lparr>client_pool = pool_new (dial_tcp net (co_dial_timeout o') (addr o'))
       \<lparr>pool_size = co_pool_size o', idle_timeout = co_idle_timeout o',
        dial_timeout = co_dial_timeout o', opt_read_timeout = co_read_timeout o',
        opt_write_timeout = co_write_timeout o',
        init_conn = (if password o' \<noteq> None \<or> db o' \<noteq> 0
                     then Some (init_callback E N (password o') (db o')) else None)\<rparr>,
     client_opts = o'\<rparr>"

text \<open>An operation of the pool, on the client.\<close>

definition on_pool ::
  "('t ConnPool \<Rightarrow> 'a res \<times> 't ConnPool) \<Rightarrow> 't Client \<Rightarrow> 'a res \<times> 't Client" where
  "on_pool f c = (case f (client_pool c) of (r, p) \<Rightarrow> (r, c\<lparr>client_pool := p\<rparr>))"

definition process_cmd ::
  "env \<Rightarrow> 't transport \<Rightarrow> string list \<Rightarrow> 't Client \<Rightarrow> Value res \<times> 't Client" where
  "process_cmd E N args = on_pool (with_guard N (roundtrip E N args))"

definition client_close :: "'t Client \<Rightarrow> unit res \<times> 't Client" where
  "client_close = on_pool pool_close"

section \<open>Reading a reply\<close>

text \<open>\<open>let v = process_cmd(..).await?; match v\<close>, and the form that turns a nil reply into \<open>None\<close>.\<close>

definition reply :: "(Value \<Rightarrow> 'a res) \<Rightarrow> Value res \<times> 's \<Rightarrow> 'a res \<times> 's" where
  "reply f m = (case m of (r, s) \<Rightarrow> (bind_outcome r f, s))"

definition nil_reply :: "(Value \<Rightarrow> 'a option res) \<Rightarrow> Value res \<times> 's \<Rightarrow> 'a option res \<times> 's" where
  "nil_reply f m = (case m of (r, s) \<Rightarrow> (if r = Err ENil then Ok None else bind_outcome r f, s))"

definition as_status :: "Value \<Rightarrow> string res" where
  "as_status v = (case v of VStatus s \<Rightarrow> Ok s | _ \<Rightarrow> Err (from_str ''expected status''))"

definition as_string :: "string \<Rightarrow> Value \<Rightarrow> string res" where
  "as_string msg v = ok_or (from_str msg) (value_str v)"

definition as_int :: "Value \<Rightarrow> int res" where
  "as_int v = (case v of VInt i \<Rightarrow> Ok i | _ \<Rightarrow> Err (from_str ''expected int''))"

definition as_bool :: "Value \<Rightarrow> bool res" where
  "as_bool v = map_ok (\<lambda>i. i = 1) (as_int v)"

definition as_float :: "Value \<Rightarrow> f64 res" where
  "as_float v =
    bind_outcome (as_string ''expected string'' v) (\<lambda>s.
      ok_or (from_str ''invalid float'') (parse_f64 s))"

text \<open>A negative time to live counts as zero.\<close>

definition from_millis :: "nat \<Rightarrow> nat" where
  "from_millis n = n * 10 ^ 6"

definition as_duration :: "(nat \<Rightarrow> nat) \<Rightarrow> Value \<Rightarrow> nat res" where
  "as_duration unit_of v = map_ok (\<lambda>i. unit_of (if i < 0 then 0 else as_u64 i)) (as_int v)"

definition as_array :: "(Value list \<Rightarrow> 'a res) \<Rightarrow> Value \<Rightarrow> 'a res" where
  "as_array f v = (case v of VArray arr \<Rightarrow> f arr | _ \<Rightarrow> Err (from_str ''expected array''))"

definition array_to_strings :: "Value list \<Rightarrow> string list" where
  "array_to_strings arr = List.map_filter value_str arr"

definition array_to_option_strings :: "Value list \<Rightarrow> string option list" where
  "array_to_option_strings arr = map value_str arr"

text \<open>
  The loop of \<open>array_to_z_vec\<close>: when either of two neighbours is not a string, the loop moves on by
  one element and takes the next two.
\<close>

function z_vec_loop :: "Value list \<Rightarrow> nat \<Rightarrow> Z list \<Rightarrow> Z list res" where
  "z_vec_loop arr i zz =
    (if i + 1 < length arr then
       case value_str (arr ! i) of
         None \<Rightarrow> z_vec_loop arr (i + 1) zz
       | Some m \<Rightarrow>
           (case value_str (arr ! (i + 1)) of
              None \<Rightarrow> z_vec_loop arr (i + 1) zz
            | Some score_str \<Rightarrow>
                (case parse_f64 score_str of
                   None \<Rightarrow> Err (from_str ''invalid float in zrange'')
                 | Some f \<Rightarrow> z_vec_loop arr (i + 2) (zz @ [\<lparr>score = f, zmember = m\<rparr>])))
     else Ok zz)"
  by pat_completeness auto
termination by (relation "measure (\<lambda>(arr, i, zz). length arr - i)") auto

declare z_vec_loop.simps [simp del]

definition array_to_z_vec :: "Value list \<Rightarrow> Z list res" where
  "array_to_z_vec arr = z_vec_loop arr 0 []"

text \<open>
  The loop of \<open>hget_all\<close>. Its two \<open>continue\<close>s leave the index as it is, so the loop may spin for
  ever; it is \<open>None\<close> then.
\<close>

partial_function (option) hget_all_loop ::
  "Value list \<Rightarrow> nat \<Rightarrow> (string \<rightharpoonup> string) \<Rightarrow> (string \<rightharpoonup> string) option" where
  "hget_all_loop arr i m =
    (if i + 1 < length arr then
       case value_str (arr ! i) of
         None \<Rightarrow> hget_all_loop arr i m
       | Some k \<Rightarrow>
           (case value_str (arr ! (i + 1)) of
              None \<Rightarrow> hget_all_loop arr i m
            | Some v \<Rightarrow> hget_all_loop arr (i + 2) (m(k \<mapsto> v)))
     else Some m)"

definition as_string_map :: "Value list \<Rightarrow> (string \<rightharpoonup> string) res" where
  "as_string_map arr = (case hget_all_loop arr 0 Map.empty of Some m \<Rightarrow> Ok m | None \<Rightarrow> Hang)"

text \<open>\<open>blpop\<close> and \<open>brpop\<close>: an array of two strings; any other reply counts as no element.\<close>

definition as_popped :: "Value \<Rightarrow> (string \<times> string) option res" where
  "as_popped v =
    (case v of
       VArray arr \<Rightarrow>
         if length arr < 2 then Ok None
         else bind_outcome (as_string ''expected string'' (arr ! 0)) (\<lambda>key.
              bind_outcome (as_string ''expected string'' (arr ! 1)) (\<lambda>val. Ok (Some (key, val))))
     | _ \<Rightarrow> Ok None)"

definition opt_string :: "Value \<Rightarrow> string option res" where
  "opt_string v = map_ok Some (as_string ''expected string'' v)"

definition opt_int :: "Value \<Rightarrow> int option res" where
  "opt_int v = map_ok Some (as_int v)"

definition opt_float :: "Value \<Rightarrow> f64 option res" where
  "opt_float v = map_ok Some (as_float v)"

section \<open>The commands\<close>

text \<open>The arguments of the time commands: a duration or a point in time, cast to \<open>i64\<close>.\<close>

definition as_secs_i64 :: "nat \<Rightarrow> int" where
  "as_secs_i64 d = as_i64 (d div 10 ^ 9)"

definition as_millis_i64 :: "nat \<Rightarrow> int" where
  "as_millis_i64 d = as_i64 (d div 10 ^ 6)"

text \<open>\<open>duration_since(UNIX_EPOCH).unwrap()\<close> panics for a time before the epoch.\<close>

definition since_epoch :: "int \<Rightarrow> nat res" where
  "since_epoch tm = (if tm < 0 then Panic else Ok (nat tm))"

definition flat_pairs :: "('a \<times> 'a) list \<Rightarrow> 'a list" where
  "flat_pairs ps = concat (map (\<lambda>(k, v). [k, v]) ps)"

text \<open>Connection commands.\<close>

definition client_auth ::
  "env \<Rightarrow> 't transport \<Rightarrow> string \<Rightarrow> 't Client \<Rightarrow> string res \<times> 't Client" where
  "client_auth E N pwd c = reply as_status (process_cmd E N [''AUTH'', pwd] c)"

definition client_echo ::
  "env \<Rightarrow> 't transport \<Rightarrow> string \<Rightarrow> 't Client \<Rightarrow> string res \<times> 't Client" where
  "client_echo E N msg c = reply (as_string ''expected string'') (process_cmd E N [''ECHO'', msg] c)"

definition client_ping ::
  "env \<Rightarrow> 't transport \<Rightarrow> 't Client \<Rightarrow> string res \<times> 't Client" where
  "client_ping E N c = reply (as_string ''expected status'') (process_cmd E N [''PING''] c)"

definition client_select ::
  "env \<Rightarrow> 't transport \<Rightarrow> int \<Rightarrow> 't Client \<Rightarrow> string res \<times> 't Client" where
  "client_select E N i c = reply as_status (process_cmd E N [''SELECT'', show_int i] c)"

text \<open>Key commands.\<close>

definition client_del ::
  "env \<Rightarrow> 't transport \<Rightarrow> string list \<Rightarrow> 't Client \<Rightarrow> int res \<times> 't Client" where
  "client_del E N ks c = reply as_int (process_cmd E N (''DEL'' # ks) c)"

definition client_exists ::
  "env \<Rightarrow> 't transport \<Rightarrow> string \<Rightarrow> 't Client \<Rightarrow> bool res \<times> 't Client" where
  "client_exists E N k c = reply as_bool (process_cmd E N [''EXISTS'', k] c)"

definition client_expire ::
  "env \<Rightarrow> 't transport \<Rightarrow> string \<Rightarrow> nat \<Rightarrow> 't Client \<Rightarrow> bool res \<times> 't Client" where
  "client_expire E N k d c =
    reply as_bool (process_cmd E N [''EXPIRE'', k, show_int (as_secs_i64 d)] c)"

definition client_expire_at ::
  "env \<Rightarrow> 't transport \<Rightarrow> string \<Rightarrow> int \<Rightarrow> 't Client \<Rightarrow> bool res \<times> 't Client" where
  "client_expire_at E N k tm c =
    (case since_epoch tm of
       Ok t \<Rightarrow> reply as_bool (process_cmd E N [''EXPIREAT'', k, show_int (as_secs_i64 t)] c)
     | r \<Rightarrow> (Panic, c))"

definition client_keys ::
  "env \<Rightarrow> 't transport \<Rightarrow> string \<Rightarrow> 't Client \<Rightarrow> string list res \<times> 't Client" where
  "client_keys E N pat c =
    reply (as_array (\<lambda>a. Ok (array_to_strings a))) (process_cmd E N [''KEYS'', pat] c)"

definition client_persist ::
  "env \<Rightarrow> 't transport \<Rightarrow> string \<Rightarrow> 't Client \<Rightarrow> bool res \<times> 't Client" where
  "client_persist E N k c = reply as_bool (process_cmd E N [''PERSIST'', k] c)"

definition client_pexpire ::
  "env \<Rightarrow> 't transport \<Rightarrow> string \<Rightarrow> nat \<Rightarrow> 't Client \<Rightarrow> bool res \<times> 't Client" where
  "client_pexpire E N k d c =
    reply as_bool (process_cmd E N [''PEXPIRE'', k, show_int (as_millis_i64 d)] c)"

definition client_pexpire_at ::
  "env \<Rightarrow> 't transport \<Rightarrow> string \<Rightarrow> int \<Rightarrow> 't Client \<Rightarrow> bool res \<times> 't Client" where
  "client_pexpire_at E N k tm c =
    (case since_epoch tm of
       Ok t \<Rightarrow> reply as_bool (process_cmd E N [''PEXPIREAT'', k, show_int (as_millis_i64 t)] c)
     | r \<Rightarrow> (Panic, c))"

definition client_pttl ::
  "env \<Rightarrow> 't transport \<Rightarrow> string \<Rightarrow> 't Client \<Rightarrow> nat res \<times> 't Client" where
  "client_pttl E N k c = reply (as_duration from_millis) (process_cmd E N [''PTTL'', k] c)"

definition client_random_key ::
  "env \<Rightarrow> 't transport \<Rightarrow> 't Client \<Rightarrow> string option res \<times> 't Client" where
  "client_random_key E N c = nil_reply opt_string (process_cmd E N [''RANDOMKEY''] c)"

definition client_rename ::
  "env \<Rightarrow> 't transport \<Rightarrow> string \<Rightarrow> string \<Rightarrow> 't Client \<Rightarrow> string res \<times> 't Client" where
  "client_rename E N k k2 c = reply as_status (process_cmd E N [''RENAME'', k, k2] c)"

definition client_rename_nx ::
  "env \<Rightarrow> 't transport \<Rightarrow> string \<Rightarrow> string \<Rightarrow> 't Client \<Rightarrow> bool res \<times> 't Client" where
  "client_rename_nx E N k k2 c = reply as_bool (process_cmd E N [''RENAMENX'', k, k2] c)"

definition client_ttl ::
  "env \<Rightarrow> 't transport \<Rightarrow> string \<Rightarrow> 't Client \<Rightarrow> nat res \<times> 't Client" where
  "client_ttl E N k c = reply (as_duration from_secs) (process_cmd E N [''TTL'', k] c)"

definition client_type ::
  "env \<Rightarrow> 't transport \<Rightarrow> string \<Rightarrow> 't Client \<Rightarrow> string res \<times> 't Client" where
  "client_type E N k c = reply as_status (process_cmd E N [''TYPE'', k] c)"

text \<open>String commands.\<close>

definition client_get ::
  "env \<Rightarrow> 't transport \<Rightarrow> string \<Rightarrow> 't Client \<Rightarrow> string option res \<times> 't Client" where
  "client_get E N k c = nil_reply opt_string (process_cmd E N [''GET'', k] c)"

definition client_set ::
  "env \<Rightarrow> 't transport \<Rightarrow> string \<Rightarrow> string \<Rightarrow> 't Client \<Rightarrow> string res \<times> 't Client" where
  "client_set E N k v c = reply as_status (process_cmd E N [''SET'', k, v] c)"

definition client_set_ex ::
  "env \<Rightarrow> 't transport \<Rightarrow> string \<Rightarrow> nat \<Rightarrow> string \<Rightarrow> 't Client \<Rightarrow> string res \<times> 't Client" where
  "client_set_ex E N k d v c =
    reply as_status (process_cmd E N [''SETEX'', k, show_int (as_secs_i64 d), v] c)"

definition client_set_nx ::
  "env \<Rightarrow> 't transport \<Rightarrow> string \<Rightarrow> string \<Rightarrow> 't Client \<Rightarrow> bool res \<times> 't Client" where
  "client_set_nx E N k v c = reply as_bool (process_cmd E N [''SETNX'', k, v] c)"

definition client_mget ::
  "env \<Rightarrow> 't transport \<Rightarrow> string list \<Rightarrow> 't Client \<Rightarrow> string option list res \<times> 't Client" where
  "client_mget E N ks c =
    reply (as_array (\<lambda>a. Ok (array_to_option_strings a))) (process_cmd E N (''MGET'' # ks) c)"

definition client_mset ::
  "env \<Rightarrow> 't transport \<Rightarrow> (string \<times> string) list \<Rightarrow> 't Client \<Rightarrow> string res \<times> 't Client" where
  "client_mset E N ps c = reply as_status (process_cmd E N (''MSET'' # flat_pairs ps) c)"

definition client_mset_nx ::
  "env \<Rightarrow> 't transport \<Rightarrow> (string \<times> string) list \<Rightarrow> 't Client \<Rightarrow> bool res \<times> 't Client" where
  "client_mset_nx E N ps c = reply as_bool (process_cmd E N (''MSETNX'' # flat_pairs ps) c)"

definition client_incr ::
  "env \<Rightarrow> 't transport \<Rightarrow> string \<Rightarrow> 't Client \<Rightarrow> int res \<times> 't Client" where
  "client_incr E N k c = reply as_int (process_cmd E N [''INCR'', k] c)"

definition client_incr_by ::
  "env \<Rightarrow> 't transport \<Rightarrow> string \<Rightarrow> int \<Rightarrow> 't Client \<Rightarrow> int res \<times> 't Client" where
  "client_incr_by E N k i c = reply as_int (process_cmd E N [''INCRBY'', k, show_int i] c)"

definition client_incr_by_float ::
  "env \<Rightarrow> 't transport \<Rightarrow> string \<Rightarrow> f64 \<Rightarrow> 't Client \<Rightarrow> f64 res \<times> 't Client" where
  "client_incr_by_float E N k f c =
    reply as_float (process_cmd E N [''INCRBYFLOAT'', k, format_float f] c)"

definition client_decr ::
  "env \<Rightarrow> 't transport \<Rightarrow> string \<Rightarrow> 't Client \<Rightarrow> int res \<times> 't Client" where
  "client_decr E N k c = reply as_int (process_cmd E N [''DECR'', k] c)"

definition client_decr_by ::
  "env \<Rightarrow> 't transport \<Rightarrow> string \<Rightarrow> int \<Rightarrow> 't Client \<Rightarrow> int res \<times> 't Client" where
  "client_decr_by E N k i c = reply as_int (process_cmd E N [''DECRBY'', k, show_int i] c)"

definition client_append ::
  "env \<Rightarrow> 't transport \<Rightarrow> string \<Rightarrow> string \<Rightarrow> 't Client \<Rightarrow> int res \<times> 't Client" where
  "client_append E N k v c = reply as_int (process_cmd E N [''APPEND'', k, v] c)"

definition client_get_range ::
  "env \<Rightarrow> 't transport \<Rightarrow> string \<Rightarrow> int \<Rightarrow> int \<Rightarrow> 't Client \<Rightarrow> string res \<times> 't Client" where
  "client_get_range E N k i j c =
    reply (as_string ''expected string'') (process_cmd E N [''GETRANGE'', k, show_int i, show_int j] c)"

definition client_get_set ::
  "env \<Rightarrow> 't transport \<Rightarrow> string \<Rightarrow> string \<Rightarrow> 't Client \<Rightarrow> string option res \<times> 't Client" where
  "client_get_set E N k v c = nil_reply opt_string (process_cmd E N [''GETSET'', k, v] c)"

definition client_str_len ::
  "env \<Rightarrow> 't transport \<Rightarrow> string \<Rightarrow> 't Client \<Rightarrow> int res \<times> 't Client" where
  "client_str_len E N k c = reply as_int (process_cmd E N [''STRLEN'', k] c)"

text \<open>Hash commands.\<close>

definition client_hget ::
  "env \<Rightarrow> 't transport \<Rightarrow> string \<Rightarrow> string \<Rightarrow> 't Client \<Rightarrow> string option res \<times> 't Client" where
  "client_hget E N k f c = nil_reply opt_string (process_cmd E N [''HGET'', k, f] c)"

definition client_hset ::
  "env \<Rightarrow> 't transport \<Rightarrow> string \<Rightarrow> string \<Rightarrow> string \<Rightarrow> 't Client \<Rightarrow> bool res \<times> 't Client" where
  "client_hset E N k f v c = reply as_bool (process_cmd E N [''HSET'', k, f, v] c)"

definition client_hget_all ::
  "env \<Rightarrow> 't transport \<Rightarrow> string \<Rightarrow> 't Client \<Rightarrow> (string \<rightharpoonup> string) res \<times> 't Client" where
  "client_hget_all E N k c = reply (as_array as_string_map) (process_cmd E N [''HGETALL'', k] c)"

definition client_hdel ::
  "env \<Rightarrow> 't transport \<Rightarrow> string \<Rightarrow> string list \<Rightarrow> 't Client \<Rightarrow> int res \<times> 't Client" where
  "client_hdel E N k fs c = reply as_int (process_cmd E N (''HDEL'' # k # fs) c)"

definition client_hexists ::
  "env \<Rightarrow> 't transport \<Rightarrow> string \<Rightarrow> string \<Rightarrow> 't Client \<Rightarrow> bool res \<times> 't Client" where
  "client_hexists E N k f c = reply as_bool (process_cmd E N [''HEXISTS'', k, f] c)"

definition client_hlen ::
  "env \<Rightarrow> 't transport \<Rightarrow> string \<Rightarrow> 't Client \<Rightarrow> int res \<times> 't Client" where
  "client_hlen E N k c = reply as_int (process_cmd E N [''HLEN'', k] c)"

definition client_hkeys ::
  "env \<Rightarrow> 't transport \<Rightarrow> string \<Rightarrow> 't Client \<Rightarrow> string list res \<times> 't Client" where
  "client_hkeys E N k c =
    reply (as_array (\<lambda>a. Ok (array_to_strings a))) (process_cmd E N [''HKEYS'', k] c)"

definition client_hvals ::
  "env \<Rightarrow> 't transport \<Rightarrow> string \<Rightarrow> 't Client \<Rightarrow> string list res \<times> 't Client" where
  "client_hvals E N k c =
    reply (as_array (\<lambda>a. Ok (array_to_strings a))) (process_cmd E N [''HVALS'', k] c)"

definition client_hincr_by ::
  "env \<Rightarrow> 't transport \<Rightarrow> string \<Rightarrow> string \<Rightarrow> int \<Rightarrow> 't Client \<Rightarrow> int res \<times> 't Client" where
  "client_hincr_by E N k f i c = reply as_int (process_cmd E N [''HINCRBY'', k, f, show_int i] c)"

definition client_hincr_by_float ::
  "env \<Rightarrow> 't transport \<Rightarrow> string \<Rightarrow> string \<Rightarrow> f64 \<Rightarrow> 't Client \<Rightarrow> f64 res \<times> 't Client" where
  "client_hincr_by_float E N k f x c =
    reply as_float (process_cmd E N [''HINCRBYFLOAT'', k, f, format_float x] c)"

definition client_hset_nx ::
  "env \<Rightarrow> 't transport \<Rightarrow> string \<Rightarrow> string \<Rightarrow> string \<Rightarrow> 't Client \<Rightarrow> bool res \<times> 't Client" where
  "client_hset_nx E N k f v c = reply as_bool (process_cmd E N [''HSETNX'', k, f, v] c)"

definition client_hmget ::
  "env \<Rightarrow> 't transport \<Rightarrow> string \<Rightarrow> string list \<Rightarrow> 't Client \<Rightarrow> string option list res \<times> 't Client" where
  "client_hmget E N k fs c =
    reply (as_array (\<lambda>a. Ok (array_to_option_strings a))) (process_cmd E N (''HMGET'' # k # fs) c)"

definition client_hmset ::
  "env \<Rightarrow> 't transport \<Rightarrow> string \<Rightarrow> (string \<times> string) list \<Rightarrow> 't Client \<Rightarrow> string res \<times> 't Client" where
  "client_hmset E N k ps c = reply as_status (process_cmd E N (''HMSET'' # k # flat_pairs ps) c)"

text \<open>List commands.\<close>

definition client_lpush ::
  "env \<Rightarrow> 't transport \<Rightarrow> string \<Rightarrow> string list \<Rightarrow> 't Client \<Rightarrow> int res \<times> 't Client" where
  "client_lpush E N k vs c = reply as_int (process_cmd E N (''LPUSH'' # k # vs) c)"

definition client_rpush ::
  "env \<Rightarrow> 't transport \<Rightarrow> string \<Rightarrow> string list \<Rightarrow> 't Client \<Rightarrow> int res \<times> 't Client" where
  "client_rpush E N k vs c = reply as_int (process_cmd E N (''RPUSH'' # k # vs) c)"

definition client_lpop ::
  "env \<Rightarrow> 't transport \<Rightarrow> string \<Rightarrow> 't Client \<Rightarrow> string option res \<times> 't Client" where
  "client_lpop E N k c = nil_reply opt_string (process_cmd E N [''LPOP'', k] c)"

definition client_rpop ::
  "env \<Rightarrow> 't transport \<Rightarrow> string \<Rightarrow> 't Client \<Rightarrow> string option res \<times> 't Client" where
  "client_rpop E N k c = nil_reply opt_string (process_cmd E N [''RPOP'', k] c)"

definition client_llen ::
  "env \<Rightarrow> 't transport \<Rightarrow> string \<Rightarrow> 't Client \<Rightarrow> int res \<times> 't Client" where
  "client_llen E N k c = reply as_int (process_cmd E N [''LLEN'', k] c)"

definition client_lrange ::
  "env \<Rightarrow> 't transport \<Rightarrow> string \<Rightarrow> int \<Rightarrow> int \<Rightarrow> 't Client \<Rightarrow> string list res \<times> 't Client" where
  "client_lrange E N k i j c =
    reply (as_array (\<lambda>a. Ok (array_to_strings a))) (process_cmd E N [''LRANGE'', k, show_int i, show_int j] c)"

definition client_lindex ::
  "env \<Rightarrow> 't transport \<Rightarrow> string \<Rightarrow> int \<Rightarrow> 't Client \<Rightarrow> string option res \<times> 't Client" where
  "client_lindex E N k i c = nil_reply opt_string (process_cmd E N [''LINDEX'', k, show_int i] c)"

definition client_lset ::
  "env \<Rightarrow> 't transport \<Rightarrow> string \<Rightarrow> int \<Rightarrow> string \<Rightarrow> 't Client \<Rightarrow> string res \<times> 't Client" where
  "client_lset E N k i v c = reply as_status (process_cmd E N [''LSET'', k, show_int i, v] c)"

definition client_lrem ::
  "env \<Rightarrow> 't transport \<Rightarrow> string \<Rightarrow> int \<Rightarrow> string \<Rightarrow> 't Client \<Rightarrow> int res \<times> 't Client" where
  "client_lrem E N k i v c = reply as_int (process_cmd E N [''LREM'', k, show_int i, v] c)"

definition client_ltrim ::
  "env \<Rightarrow> 't transport \<Rightarrow> string \<Rightarrow> int \<Rightarrow> int \<Rightarrow> 't Client \<Rightarrow> string res \<times> 't Client" where
  "client_ltrim E N k i j c =
    reply as_status (process_cmd E N [''LTRIM'', k, show_int i, show_int j] c)"

definition client_blpop ::
  "env \<Rightarrow> 't transport \<Rightarrow> string list \<Rightarrow> int \<Rightarrow> 't Client \<Rightarrow> (string \<times> string) option res \<times> 't Client" where
  "client_blpop E N ks secs c =
    nil_reply as_popped (process_cmd E N (''BLPOP'' # ks @ [show_int secs]) c)"

definition client_brpop ::
  "env \<Rightarrow> 't transport \<Rightarrow> string list \<Rightarrow> int \<Rightarrow> 't Client \<Rightarrow> (string \<times> string) option res \<times> 't Client" where
  "client_brpop E N ks secs c =
    nil_reply as_popped (process_cmd E N (''BRPOP'' # ks @ [show_int secs]) c)"

text \<open>Set commands.\<close>

definition client_sadd ::
  "env \<Rightarrow> 't transport \<Rightarrow> string \<Rightarrow> string list \<Rightarrow> 't Client \<Rightarrow> int res \<times> 't Client" where
  "client_sadd E N k vs c = reply as_int (process_cmd E N (''SADD'' # k # vs) c)"

definition client_srem ::
  "env \<Rightarrow> 't transport \<Rightarrow> string \<Rightarrow> string list \<Rightarrow> 't Client \<Rightarrow> int res \<times> 't Client" where
  "client_srem E N k vs c = reply as_int (process_cmd E N (''SREM'' # k # vs) c)"

definition client_smembers ::
  "env \<Rightarrow> 't transport \<Rightarrow> string \<Rightarrow> 't Client \<Rightarrow> string list res \<times> 't Client" where
  "client_smembers E N k c =
    reply (as_array (\<lambda>a. Ok (array_to_strings a))) (process_cmd E N [''SMEMBERS'', k] c)"

definition client_sismember ::
  "env \<Rightarrow> 't transport \<Rightarrow> string \<Rightarrow> string \<Rightarrow> 't Client \<Rightarrow> bool res \<times> 't Client" where
  "client_sismember E N k v c = reply as_bool (process_cmd E N [''SISMEMBER'', k, v] c)"

definition client_scard ::
  "env \<Rightarrow> 't transport \<Rightarrow> string \<Rightarrow> 't Client \<Rightarrow> int res \<times> 't Client" where
  "client_scard E N k c = reply as_int (process_cmd E N [''SCARD'', k] c)"

definition client_spop ::
  "env \<Rightarrow> 't transport \<Rightarrow> string \<Rightarrow> 't Client \<Rightarrow> string option res \<times> 't Client" where
  "client_spop E N k c = nil_reply opt_string (process_cmd E N [''SPOP'', k] c)"

definition client_srandmember ::
  "env \<Rightarrow> 't transport \<Rightarrow> string \<Rightarrow> 't Client \<Rightarrow> string option res \<times> 't Client" where
  "client_srandmember E N k c = nil_reply opt_string (process_cmd E N [''SRANDMEMBER'', k] c)"

definition client_sdiff ::
  "env \<Rightarrow> 't transport \<Rightarrow> string list \<Rightarrow> 't Client \<Rightarrow> string list res \<times> 't Client" where
  "client_sdiff E N ks c =
    reply (as_array (\<lambda>a. Ok (array_to_strings a))) (process_cmd E N (''SDIFF'' # ks) c)"

definition client_sinter ::
  "env \<Rightarrow> 't transport \<Rightarrow> string list \<Rightarrow> 't Client \<Rightarrow> string list res \<times> 't Client" where
  "client_sinter E N ks c =
    reply (as_array (\<lambda>a. Ok (array_to_strings a))) (process_cmd E N (''SINTER'' # ks) c)"

definition client_sunion ::
  "env \<Rightarrow> 't transport \<Rightarrow> string list \<Rightarrow> 't Client \<Rightarrow> string list res \<times> 't Client" where
  "client_sunion E N ks c =
    reply (as_array (\<lambda>a. Ok (array_to_strings a))) (process_cmd E N (''SUNION'' # ks) c)"

text \<open>Sorted set commands.\<close>

definition client_zadd ::
  "env \<Rightarrow> 't transport \<Rightarrow> string \<Rightarrow> Z list \<Rightarrow> 't Client \<Rightarrow> int res \<times> 't Client" where
  "client_zadd E N k zs c =
    reply as_int (process_cmd E N (''ZADD'' # k # flat_pairs (map (\<lambda>z. (format_float (score z), zmember z)) zs)) c)"

definition client_zrem ::
  "env \<Rightarrow> 't transport \<Rightarrow> string \<Rightarrow> string list \<Rightarrow> 't Client \<Rightarrow> int res \<times> 't Client" where
  "client_zrem E N k vs c = reply as_int (process_cmd E N (''ZREM'' # k # vs) c)"

definition client_zrange ::
  "env \<Rightarrow> 't transport \<Rightarrow> string \<Rightarrow> int \<Rightarrow> int \<Rightarrow> 't Client \<Rightarrow> string list res \<times> 't Client" where
  "client_zrange E N k i j c =
    reply (as_array (\<lambda>a. Ok (array_to_strings a))) (process_cmd E N [''ZRANGE'', k, show_int i, show_int j] c)"

definition client_zrange_with_scores ::
  "env \<Rightarrow> 't transport \<Rightarrow> string \<Rightarrow> int \<Rightarrow> int \<Rightarrow> 't Client \<Rightarrow> Z list res \<times> 't Client" where
  "client_zrange_with_scores E N k i j c =
    reply (as_array array_to_z_vec) (process_cmd E N [''ZRANGE'', k, show_int i, show_int j, ''WITHSCORES''] c)"

definition client_zcard ::
  "env \<Rightarrow> 't transport \<Rightarrow> string \<Rightarrow> 't Client \<Rightarrow> int res \<times> 't Client" where
  "client_zcard E N k c = reply as_int (process_cmd E N [''ZCARD'', k] c)"

definition client_zscore ::
  "env \<Rightarrow> 't transport \<Rightarrow> string \<Rightarrow> string \<Rightarrow> 't Client \<Rightarrow> f64 option res \<times> 't Client" where
  "client_zscore E N k v c = nil_reply opt_float (process_cmd E N [''ZSCORE'', k, v] c)"

definition client_zrank ::
  "env \<Rightarrow> 't transport \<Rightarrow> string \<Rightarrow> string \<Rightarrow> 't Client \<Rightarrow> int option res \<times> 't Client" where
  "client_zrank E N k v c = nil_reply opt_int (process_cmd E N [''ZRANK'', k, v] c)"

definition client_zrevrank ::
  "env \<Rightarrow> 't transport \<Rightarrow> string \<Rightarrow> string \<Rightarrow> 't Client \<Rightarrow> int option res \<times> 't Client" where
  "client_zrevrank E N k v c = nil_reply opt_int (process_cmd E N [''ZREVRANK'', k, v] c)"

definition client_zrevrange ::
  "env \<Rightarrow> 't transport \<Rightarrow> string \<Rightarrow> int \<Rightarrow> int \<Rightarrow> 't Client \<Rightarrow> string list res \<times> 't Client" where
  "client_zrevrange E N k i j c =
    reply (as_array (\<lambda>a. Ok (array_to_strings a))) (process_cmd E N [''ZREVRANGE'', k, show_int i, show_int j] c)"

definition client_zrevrange_with_scores ::
  "env \<Rightarrow> 't transport \<Rightarrow> string \<Rightarrow> int \<Rightarrow> int \<Rightarrow> 't Client \<Rightarrow> Z list res \<times> 't Client" where
  "client_zrevrange_with_scores E N k i j c =
    reply (as_array array_to_z_vec) (process_cmd E N [''ZREVRANGE'', k, show_int i, show_int j, ''WITHSCORES''] c)"

definition client_zcount ::
  "env \<Rightarrow> 't transport \<Rightarrow> string \<Rightarrow> string \<Rightarrow> string \<Rightarrow> 't Client \<Rightarrow> int res \<times> 't Client" where
  "client_zcount E N k lo hi c = reply as_int (process_cmd E N [''ZCOUNT'', k, lo, hi] c)"

definition client_zincr_by ::
  "env \<Rightarrow> 't transport \<Rightarrow> string \<Rightarrow> f64 \<Rightarrow> string \<Rightarrow> 't Client \<Rightarrow> f64 res \<times> 't Client" where
  "client_zincr_by E N k f v c = reply as_float (process_cmd E N [''ZINCRBY'', k, format_float f, v] c)"

text \<open>Server commands.\<close>

definition client_flush_db ::
  "env \<Rightarrow> 't transport \<Rightarrow> 't Client \<Rightarrow> string res \<times> 't Client" where
  "client_flush_db E N c = reply as_status (process_cmd E N [''FLUSHDB''] c)"

definition client_flush_all ::
  "env \<Rightarrow> 't transport \<Rightarrow> 't Client \<Rightarrow> string res \<times> 't Client" where
  "client_flush_all E N c = reply as_status (process_cmd E N [''FLUSHALL''] c)"

definition client_info ::
  "env \<Rightarrow> 't transport \<Rightarrow> 't Client \<Rightarrow> string res \<times> 't Client" where
  "client_info E N c = reply (as_string ''expected string'') (process_cmd E N [''INFO''] c)"

definition client_dbsize ::
  "env \<Rightarrow> 't transport \<Rightarrow> 't Client \<Rightarrow> int res \<times> 't Client" where
  "client_dbsize E N c = reply as_int (process_cmd E N [''DBSIZE''] c)"

text \<open>Publishing a message.\<close>

definition client_publish ::
  "env \<Rightarrow> 't transport \<Rightarrow> string \<Rightarrow> string \<Rightarrow> 't Client \<Rightarrow> int res \<times> 't Client" where
  "client_publish E N ch msg c = reply as_int (process_cmd E N [''PUBLISH'', ch, msg] c)"

end
