(* ===== verification/Pipeline.thy ===== *)
theory Pipeline imports Client begin

text \<open>
  \<open>src/pipeline.rs\<close>: commands are queued, sent in one write and their replies read in order.
\<close>

record 't Pipeline =
  pl_client :: "'t Client"
  pl_cmds :: "string list list"

definition pipeline_new :: "'t Client \<Rightarrow> 't Pipeline" where
  "pipeline_new cl = \<lparr>pl_client = cl, pl_cmds = []\<rparr>"

text \<open>\<open>Client::pipeline\<close>; the clone of the client shares its pool, which the record of the pipeline carries.\<close>

definition client_pipeline :: "'t Client \<Rightarrow> 't Pipeline" where
  "client_pipeline cl = pipeline_new cl"

definition pipeline_cmd :: "string list \<Rightarrow> 't Pipeline \<Rightarrow> 't Pipeline" where
  "pipeline_cmd args p = p\<lparr>pl_cmds := pl_cmds p @ [args]\<rparr>"

definition pipeline_set :: "string \<Rightarrow> string \<Rightarrow> 't Pipeline \<Rightarrow> 't Pipeline" where
  "pipeline_set k v = pipeline_cmd [''SET'', k, v]"

definition pipeline_get :: "string \<Rightarrow> 't Pipeline \<Rightarrow> 't Pipeline" where
  "pipeline_get k = pipeline_cmd [''GET'', k]"

definition pipeline_del :: "string list \<Rightarrow> 't Pipeline \<Rightarrow> 't Pipeline" where
  "pipeline_del ks = pipeline_cmd (''DEL'' # ks)"

definition pipeline_clear :: "'t Pipeline \<Rightarrow> 't Pipeline" where
  "pipeline_clear p = p\<lparr>pl_cmds := []\<rparr>"

text \<open>\<open>n\<close> replies in a row; the first error ends the reading.\<close>

definition read_replies ::
  "env \<Rightarrow> 't transport \<Rightarrow> nat \<Rightarrow> 't connection \<Rightarrow> Value list res \<times> 't connection" where
  "read_replies E N n = parse_loop (conn_parse_reply E N) (\<lambda>results v. results @ [v]) n []"

definition run_batch ::
  "env \<Rightarrow> 't transport \<Rightarrow> string list list \<Rightarrow> 't connection \<Rightarrow> Value list res \<times> 't connection" where
  "run_batch E N args_list c =
    and_then (conn_write_all N (foldl (append_args E) [] args_list) c) (\<lambda>_ c.
      read_replies E N (length args_list) c)"

definition pipeline_execute ::
  "env \<Rightarrow> 't transport \<Rightarrow> 't Pipeline \<Rightarrow> Value list res \<times> 't Pipeline" where
  "pipeline_execute E N p =
    (let args_list = pl_cmds p; p1 = p\<lparr>pl_cmds := []\<rparr> in
     if args_list = [] then (Ok [], p1)
     else case on_pool (with_guard N (run_batch E N args_list)) (pl_client p1) of
            (r, cl) \<Rightarrow> (r, p1\<lparr>pl_client := cl\<rparr>))"

end
