(* ===== verification/Multi.thy ===== *)
theory Multi imports Pipeline begin

text \<open>
  \<open>src/multi.rs\<close>: a transaction. MULTI, the queued commands and EXEC go out in one write; the OK and
  the QUEUED replies are read and dropped, the last reply is the result.
\<close>

record 't Multi =
  mu_client :: "'t Client"
  mu_cmds :: "string list list"

definition multi_new :: "'t Client \<Rightarrow> 't Multi" where
  "multi_new cl = \<lparr>mu_client = cl, mu_cmds = []\<rparr>"

definition client_multi :: "'t Client \<Rightarrow> 't Multi" where
  "client_multi cl = multi_new cl"

definition multi_cmd :: "string list \<Rightarrow> 't Multi \<Rightarrow> 't Multi" where
  "multi_cmd args m = m\<lparr>mu_cmds := mu_cmds m @ [args]\<rparr>"

definition multi_discard :: "'t Multi \<Rightarrow> 't Multi" where
  "multi_discard m = m\<lparr>mu_cmds := []\<rparr>"

text \<open>The debug form of a reply, for the message of the unexpected case.\<close>

fun debug_value :: "env \<Rightarrow> Value \<Rightarrow> string" where
  "debug_value E VNil = ''Nil''"
| "debug_value E (VStatus s) = ''Status('' @ str_debug E s @ '')''"
| "debug_value E (VInt i) = ''Int('' @ show_int i @ '')''"
| "debug_value E (VBulkString s) = ''BulkString('' @ str_debug E s @ '')''"
| "debug_value E (VArray vs) = ''Array(['' @ join '', '' (map (debug_value E) vs) @ ''])''"

text \<open>The reply of EXEC: an empty array and nil both mean that the transaction was not run.\<close>

definition exec_result :: "env \<Rightarrow> Value res \<Rightarrow> Value list res" where
  "exec_result E r =
    (case r of
       Ok (VArray arr) \<Rightarrow> if arr = [] then Err ETxFailed else Ok arr
     | Ok VNil \<Rightarrow> Err ETxFailed
     | Err ENil \<Rightarrow> Err ETxFailed
     | Ok v \<Rightarrow> Err (EOther (''unexpected reply: '' @ debug_value E v))
     | Err e \<Rightarrow> Err e
     | Panic \<Rightarrow> Panic
     | Pending \<Rightarrow> Pending
     | Hang \<Rightarrow> Hang)"

definition transaction_bytes :: "env \<Rightarrow> string list list \<Rightarrow> bytes" where
  "transaction_bytes E cmds =
    append_args E (foldl (append_args E) (append_args E [] [''MULTI'']) cmds) [''EXEC'']"

definition run_transaction ::
  "env \<Rightarrow> 't transport \<Rightarrow> string list list \<Rightarrow> 't connection \<Rightarrow> Value list res \<times> 't connection" where
  "run_transaction E N cmds c =
    and_then (conn_write_all N (transaction_bytes E cmds) c) (\<lambda>_ c.
    and_then (conn_parse_reply E N c) (\<lambda>multi_ok c.
    and_then (parse_loop (conn_parse_reply E N) (\<lambda>u queued. u) (length cmds) () c) (\<lambda>_ c.
      case conn_parse_reply E N c of (r, c) \<Rightarrow> (exec_result E r, c))))"

definition multi_exec ::
  "env \<Rightarrow> 't transport \<Rightarrow> 't Multi \<Rightarrow> Value list res \<times> 't Multi" where
  "multi_exec E N m =
    (let cmds = mu_cmds m; m1 = m\<lparr>mu_cmds := []\<rparr> in
     if cmds = [] then (Ok [], m1)
     else case on_pool (with_guard N (run_transaction E N cmds)) (mu_client m1) of
            (r, cl) \<Rightarrow> (r, m1\<lparr>mu_client := cl\<rparr>))"

end
