(* ===== verification/Frame.thy ===== *)
theory Frame imports Parser_Laws begin

text \<open>
  What a reply leaves alone: a predicate on the reader that its three operations keep is kept by the
  whole parser, on every path.
\<close>

locale reader_frame =
  fixes R :: "('s, 'x) reader_scheme" and keeps :: "'s \<Rightarrow> bool"
  assumes keeps_fill: "keeps s \<Longrightarrow> fill_buf R s = (r, t) \<Longrightarrow> keeps t"
    and keeps_consume: "keeps s \<Longrightarrow> keeps (consume R n s)"
    and keeps_read: "keeps s \<Longrightarrow> 0 < n \<Longrightarrow> read_some R n s = (q, t) \<Longrightarrow> keeps t"
begin

lemma keeps_read_line_loop:
  "keeps s \<Longrightarrow> read_line_loop R line s = (r, t) \<Longrightarrow> keeps t"
proof (induction "MAX_LINE_LEN - length line" arbitrary: line s rule: less_induct)
  case less
  from less.prems(2) show ?case
  proof (cases rule: read_line_loop_round)
    case (more buf u line' n)
    then have "MAX_LINE_LEN - length line' < MAX_LINE_LEN - length line"
      using scan_line_grows [OF more(3)] by (cases buf) auto
    then show ?thesis
      using less.hyps [OF _ keeps_consume more(4)] keeps_fill [OF less.prems(1) more(1)] by blast
  qed (use less.prems keeps_fill keeps_consume in blast)+
qed

lemma keeps_read_n_loop:
  "keeps s \<Longrightarrow> read_n_loop R n got s = (r, t) \<Longrightarrow> keeps t"
proof (induction "n - length got" arbitrary: got s rule: less_induct)
  case less
  from less.prems(2) show ?case
  proof (cases rule: read_n_loop_round)
    case (more m u)
    then have "n - length (got @ m) < n - length got" by (cases m) auto
    then show ?thesis
      using less.hyps [OF _ _ more(4)] keeps_read [OF less.prems(1) _ more(2)] more(1) by simp
  next
    case eof
    then show ?thesis using keeps_read [OF less.prems(1) _ eof(2)] by simp
  next
    case fails
    then show ?thesis using keeps_read [OF less.prems(1) _ fails(2)] by simp
  qed (use less.prems in simp)
qed

lemma keeps_read_n: "keeps s \<Longrightarrow> read_n E R n s = (r, t) \<Longrightarrow> keeps t"
  using keeps_read_n_loop by (auto simp: read_n_def elim!: and_then_cases)

lemma keeps_parse_bulk: "keeps s \<Longrightarrow> parse_bulk E R rest s = (r, t) \<Longrightarrow> keeps t"
  using keeps_read_n by (fastforce simp: parse_bulk_def split: if_splits elim!: and_then_cases)

lemma keeps_dispatch:
  assumes "keeps s" "dispatch E R slice line s = (r, t)"
    and "\<And>n s r t. keeps s \<Longrightarrow> slice n s = (r, t) \<Longrightarrow> keeps t"
  shows "keeps t"
proof (cases line)
  case Nil
  then show ?thesis using assms(1,2) by (simp add: dispatch_def)
next
  case (Cons c rest)
  show ?thesis
  proof (cases "c = CHR ''*''")
    case True
    then have "and_then (array_length rest, s) (\<lambda>n s.
        and_then (with_capacity E size_of_Value (as_u64 n), s) (\<lambda>_ s. slice (nat n) s)) = (r, t)"
      using assms(2) Cons by (simp add: dispatch_def)
    then show ?thesis
      by (elim and_then_cases) (use assms(1) in \<open>auto elim: assms(3) [rotated]\<close>)
  next
    case False
    then show ?thesis
      using assms(1,2) Cons keeps_parse_bulk by (auto simp: dispatch_def split: if_splits)
  qed
qed

lemma keeps_parse_f:
  "keeps s \<Longrightarrow> parse_reply_f E R k s = (r, t) \<Longrightarrow> keeps t"
  "keeps s \<Longrightarrow> parse_slice_f E R k n vals s = (q, u) \<Longrightarrow> keeps u"
proof (induction k arbitrary: s r t n vals q u)
  case 0
  {
    case 1
    then show ?case by simp
  next
    case 2
    then show ?case by (cases n) (auto simp: parse_slice_f_Suc)
  }
next
  case (Suc k)
  have reply: "keeps t" if "keeps s" "parse_reply_f E R (Suc k) s = (r, t)" for s r t
    using that(2) unfolding parse_reply_f_Suc
  proof (cases rule: and_then_cases)
    case (runs line u)
    have "keeps u" using keeps_read_line_loop that(1) runs(1) by (simp add: read_line_def)
    from keeps_dispatch [OF this runs(2)] show ?thesis using Suc(2) by blast
  next
    case (fails f)
    then show ?thesis using keeps_read_line_loop that(1) by (simp add: read_line_def)
  qed
  {
    case 1
    then show ?case by (rule reply)
  next
    case 2
    then show ?case
    proof (induction n arbitrary: vals s)
      case 0
      then show ?case by simp
    next
      case (Suc n)
      from Suc.prems(2) show ?case
        by (cases rule: parse_slice_round) (use Suc reply in blast)+
    qed
  }
qed

lemma keeps_parse_reply: "keeps s \<Longrightarrow> parse_reply E R s = (r, t) \<Longrightarrow> keeps t"
  unfolding parse_reply_def by (rule keeps_parse_f)

end

end
