(* ===== verification/Session.thy ===== *)
theory Session imports Tcp Frame begin

text \<open>
  A connection that works: the peer answers what it is sent, in any pieces and in time. These are
  the circumstances under which the functional theorems of the client say that a command delivers
  its reply; they describe the environment, and nothing of the crate.
\<close>

section \<open>Answers that arrive\<close>

definition data_only :: "(nat \<times> net_event) list \<Rightarrow> bool" where
  "data_only evs \<longleftrightarrow> (\<forall>(d, ev) \<in> set evs. \<exists>b. ev = Data b \<and> b \<noteq> [])"

fun in_time :: "nat option \<Rightarrow> (nat \<times> net_event) list \<Rightarrow> bool" where
  "in_time None evs = True"
| "in_time (Some limit) evs = (sum_list (map fst evs) \<le> limit)"

lemma data_only_simps [simp]:
  "data_only []"
  "data_only ((d, ev) # evs) \<longleftrightarrow> (\<exists>b. ev = Data b \<and> b \<noteq> []) \<and> data_only evs"
  by (auto simp: data_only_def)

lemma data_only_append [simp]: "data_only (xs @ ys) \<longleftrightarrow> data_only xs \<and> data_only ys"
  unfolding data_only_def set_append by blast

lemma stream_bytes_append: "data_only xs \<Longrightarrow> stream_bytes (xs @ ys) = stream_bytes xs @ stream_bytes ys"
proof (induction xs)
  case (Cons e xs)
  then show ?case by (cases e) auto
qed simp

lemma data_only_drained: "data_only evs \<Longrightarrow> stream_bytes evs = [] \<Longrightarrow> evs = []"
  by (cases evs) auto

lemma due_bytes_all:
  "data_only evs \<Longrightarrow> in_time k evs \<Longrightarrow> due_bytes k evs = length (stream_bytes evs)"
proof (induction evs arbitrary: k)
  case Nil
  then show ?case by simp
next
  case (Cons e evs)
  then show ?case by (cases e; cases k) (auto intro!: Cons.IH)
qed

lemma sock_read_steady:
  assumes "sock_read cap k evs = (r, k', evs')" "data_only evs" "0 < cap"
  shows "data_only evs' \<and> sum_list (map fst evs') \<le> sum_list (map fst evs) \<and> (k = None \<longrightarrow> k' = None)"
  using assms by (cases "(cap, k, evs)" rule: sock_read.cases; cases k) (auto split: if_splits)

section \<open>A steady connection\<close>

text \<open>
  Only data is on its way, and all of it within the limit; the socket takes every write; and
  \<open>sent\<close> has been sent so far to the peer \<open>f\<close>.
\<close>

definition steady ::
  "nat option \<Rightarrow> bytes \<Rightarrow> (bytes \<Rightarrow> bytes \<Rightarrow> (nat \<times> net_event) list) \<Rightarrow> tcp \<Rightarrow> bool" where
  "steady limit sent f t \<longleftrightarrow>
    data_only (inbound t) \<and> in_time limit (inbound t) \<and> (limit = None \<longrightarrow> deadline t = None) \<and>
    wplan t = [] \<and> outbound t = sent \<and> server t = f"

lemma steady_sock_read:
  assumes "steady limit sent f t" "sock_read n (deadline t) (inbound t) = (r, k, evs)" "0 < n"
  shows "steady limit sent f (t\<lparr>rbuf := b, deadline := k, inbound := evs\<rparr>)"
  using sock_read_steady [OF assms(2)] assms(1,3)
  by (cases limit) (auto simp: steady_def)

lemma steady_sock_read_direct:
  assumes "steady limit sent f t" "sock_read n (deadline t) (inbound t) = (r, k, evs)" "0 < n"
  shows "steady limit sent f (t\<lparr>deadline := k, inbound := evs\<rparr>)"
  using sock_read_steady [OF assms(2)] assms(1,3)
  by (cases limit) (auto simp: steady_def)

lemma steady_rbuf [simp]: "steady limit sent f (t\<lparr>rbuf := b\<rparr>) = steady limit sent f t"
  by (simp add: steady_def)

lemma steady_fill:
  "steady limit sent f t \<Longrightarrow> tcp_fill t = (r, u) \<Longrightarrow> steady limit sent f u"
  using steady_sock_read [of limit sent f t BUF_CAPACITY]
  by (auto simp: tcp_fill_def split: if_splits prod.splits)

lemma steady_consume: "steady limit sent f t \<Longrightarrow> steady limit sent f (tcp_consume n t)"
  by (simp add: tcp_consume_def)

lemma steady_read:
  assumes "steady limit sent f t" "0 < n" "tcp_read n t = (r, u)"
  shows "steady limit sent f u"
proof (cases "rbuf t = [] \<and> BUF_CAPACITY \<le> n")
  case True
  then obtain k evs where k: "sock_read n (deadline t) (inbound t) = (r, k, evs)"
    "u = t\<lparr>deadline := k, inbound := evs\<rparr>"
    using assms(3) by (auto simp: tcp_read_def split: prod.splits)
  then show ?thesis using steady_sock_read_direct [OF assms(1) k(1) assms(2)] by simp
next
  case False
  then have "and_then (tcp_fill t) (\<lambda>b t. (Ok (take n b), tcp_consume (min n (length b)) t)) = (r, u)"
    using assms(3) by (auto simp: tcp_read_def)
  then show ?thesis
    by (cases rule: and_then_cases) (use assms(1) steady_fill steady_consume in auto)
qed

interpretation steady: reader_frame tcp_net "steady limit sent f" for limit sent f
proof unfold_locales
  fix s :: tcp and r t n q
  show "steady limit sent f s \<Longrightarrow> fill_buf tcp_net s = (r, t) \<Longrightarrow> steady limit sent f t"
    using steady_fill by simp
  show "steady limit sent f s \<Longrightarrow> steady limit sent f (consume tcp_net n s)"
    by (simp add: steady_consume)
  show "steady limit sent f s \<Longrightarrow> 0 < n \<Longrightarrow> read_some tcp_net n s = (q, t) \<Longrightarrow> steady limit sent f t"
    using steady_read by simp
qed

section \<open>Waiting for a command\<close>

definition ready :: "tcp \<Rightarrow> bool" where
  "ready t \<longleftrightarrow> rbuf t = [] \<and> inbound t = [] \<and> deadline t = None \<and> wplan t = []"

text \<open>A command that is written puts the answer of the peer on its way.\<close>

lemma sock_write_all [simp]: "sock_write k [] bs = (Ok (), k, [], bs)"
  by simp

lemma conn_write_accepted:
  assumes "wplan (stream c) = []" "deadline (stream c) = None" "bs \<noteq> []"
  shows "conn_write_all tcp_net bs c =
    (Ok (), c\<lparr>stream := (stream c)\<lparr>outbound := outbound (stream c) @ bs,
        inbound := inbound (stream c) @ server (stream c) (outbound (stream c)) bs\<rparr>\<rparr>)"
  using assms
  by (cases "stream c"; cases c)
    (auto simp: conn_write_all_def io_timeout_def tcp_write_all_def split: option.splits)

lemma conn_write_ready:
  assumes "ready (stream c)" "bs \<noteq> []"
  shows "conn_write_all tcp_net bs c =
    (Ok (), c\<lparr>stream := (stream c)\<lparr>outbound := outbound (stream c) @ bs,
                                 inbound := server (stream c) (outbound (stream c)) bs\<rparr>\<rparr>)"
  using conn_write_accepted [of c bs] assms by (simp add: ready_def)

text \<open>
  What a peer puts on the wire for one reply, and what reading it returns: the encoding of a value,
  or of an error.
\<close>

definition wire_reply :: "env \<Rightarrow> bytes \<Rightarrow> Value res \<Rightarrow> bool" where
  "wire_reply E enc r \<longleftrightarrow>
    settled r \<and> (\<forall>rest. parse_reply E byte_reader (enc @ rest) = (r, rest))"

lemma wire_reply_value: "fits E v \<Longrightarrow> wire_reply E (encode_value v) (as_result v)"
proof -
  assume "fits E v"
  then have "parse_reply E byte_reader (encode_value v @ rest) = (as_result v, rest)" for rest
    by (rule parse_encoded)
  moreover have "settled (as_result v)" by (cases v) (simp_all add: redis_error_def)
  ultimately show ?thesis by (simp add: wire_reply_def)
qed

lemma wire_reply_error:
  "line_text msg \<Longrightarrow> utf8_lossy msg \<noteq> ''line too long'' \<Longrightarrow>
    wire_reply E (encode_error msg) (Err (ERedis (RedisError (utf8_lossy msg))))"
  by (simp add: wire_reply_def parse_encoded_error redis_error_def)

text \<open>A reply that is on its way is read, and what follows it is left.\<close>

lemma conn_parse_steady:
  assumes st: "steady (read_timeout c) sent f (stream c)" and d: "deadline (stream c) = None"
    and b: "tcp_backlog (stream c) = enc @ rest" and v: "wire_reply E enc r"
  shows "\<exists>s. conn_parse_reply E tcp_net c = (r, c\<lparr>stream := s\<rparr>) \<and>
    steady (read_timeout c) sent f s \<and> deadline s = None \<and> tcp_backlog s = rest"
proof -
  define s0 where "s0 = (stream c)\<lparr>deadline := read_timeout c\<rparr>"
  have st0: "steady (read_timeout c) sent f s0"
    using st by (cases "read_timeout c") (auto simp: steady_def s0_def)
  have b0: "tcp_backlog s0 = enc @ rest" using b by (simp add: s0_def tcp_backlog_def)
  have "tcp_due s0 = length (tcp_backlog s0)"
    using due_bytes_all [of "inbound s0" "read_timeout c"] st0
    by (simp add: tcp_due_def tcp_backlog_def steady_def s0_def)
  then have cov: "tcp_io.covers 0 s0 (enc @ rest)"
    using b0 by (simp add: tcp_io.covers_def)
  have "parse_reply E byte_reader (enc @ rest) = (r, rest)" "settled r"
    using v by (auto simp: wire_reply_def)
  from tcp_io.parse_reply_sim [OF this cov]
  obtain t where t: "parse_reply E tcp_net s0 = (r, t)" "tcp_io.covers 0 t rest" by auto
  have bt: "tcp_backlog t = rest" using t(2) by (simp add: tcp_io.covers_def)
  have stt: "steady (read_timeout c) sent f t" by (rule steady.keeps_parse_reply [OF st0 t(1)])
  have np: "r \<noteq> Pending" using \<open>settled r\<close> by auto
  show ?thesis
  proof (cases "read_timeout c")
    case None
    then have "s0 = stream c" using d by (simp add: s0_def)
    then show ?thesis
      using None t(1) bt stt
      by (intro exI [of _ t]) (simp add: conn_parse_reply_def steady_def)
  next
    case (Some n)
    have "conn_parse_reply E tcp_net c = (r, c\<lparr>stream := t\<lparr>deadline := None\<rparr>\<rparr>)"
      using Some t(1) np by (simp add: conn_parse_reply_def io_timeout_def s0_def)
    then show ?thesis
      using bt stt Some by (auto simp: steady_def tcp_backlog_def)
  qed
qed

text \<open>Several replies in a row, each handed to the loop of the caller.\<close>

lemma parse_loop_steady:
  assumes "steady (read_timeout c) sent f (stream c)" "deadline (stream c) = None"
    and "tcp_backlog (stream c) = concat encs @ rest"
    and "list_all2 (\<lambda>enc v. wire_reply E enc (Ok v)) encs vs"
  shows "\<exists>s. (\<forall>k. parse_loop (conn_parse_reply E tcp_net) add (length vs + k) acc c =
      parse_loop (conn_parse_reply E tcp_net) add k (foldl add acc vs) (c\<lparr>stream := s\<rparr>)) \<and>
    steady (read_timeout c) sent f s \<and> deadline s = None \<and> tcp_backlog s = rest"
  using assms
proof (induction vs arbitrary: encs acc c)
  case Nil
  then show ?case by (intro exI [of _ "stream c"]) auto
next
  case (Cons v vs)
  then obtain enc encs' where e: "encs = enc # encs'" "wire_reply E enc (Ok v)"
    "list_all2 (\<lambda>enc v. wire_reply E enc (Ok v)) encs' vs"
    by (auto simp: list_all2_Cons2)
  then have "tcp_backlog (stream c) = enc @ (concat encs' @ rest)" using Cons.prems(3) by simp
  from conn_parse_steady [OF Cons.prems(1,2) this e(2)]
  obtain s where s: "conn_parse_reply E tcp_net c = (Ok v, c\<lparr>stream := s\<rparr>)"
    "steady (read_timeout c) sent f s" "deadline s = None" "tcp_backlog s = concat encs' @ rest"
    by blast
  from Cons.IH [of "c\<lparr>stream := s\<rparr>" encs' "add acc v"] s(2-4) e(3) show ?case
    by (auto simp: s(1))
qed

section \<open>A peer that answers\<close>

text \<open>What the peer sends back when it has received \<open>sent\<close> and then gets \<open>new\<close>.\<close>

definition answers ::
  "nat option \<Rightarrow> (bytes \<Rightarrow> bytes \<Rightarrow> (nat \<times> net_event) list) \<Rightarrow> bytes \<Rightarrow> bytes \<Rightarrow> bytes \<Rightarrow> bool" where
  "answers limit f sent new bs \<longleftrightarrow>
    data_only (f sent new) \<and> in_time limit (f sent new) \<and> stream_bytes (f sent new) = bs"

lemma drained_ready:
  "steady limit sent f t \<Longrightarrow> deadline t = None \<Longrightarrow> tcp_backlog t = [] \<Longrightarrow> ready t"
  using data_only_drained [of "inbound t"] by (simp add: steady_def ready_def tcp_backlog_def)

text \<open>After the write the answer is on its way.\<close>

definition written :: "bytes \<Rightarrow> tcp \<Rightarrow> tcp" where
  "written bs t = t\<lparr>outbound := outbound t @ bs, inbound := server t (outbound t) bs\<rparr>"

lemma conn_write_answers:
  assumes c: "ready (stream c)" and ne: "bs \<noteq> []"
    and a: "answers (read_timeout c) (server (stream c)) (outbound (stream c)) bs back"
  shows "conn_write_all tcp_net bs c = (Ok (), c\<lparr>stream := written bs (stream c)\<rparr>)"
    and "steady (read_timeout c) (outbound (stream c) @ bs) (server (stream c)) (written bs (stream c))"
    and "deadline (written bs (stream c)) = None" and "tcp_backlog (written bs (stream c)) = back"
  using conn_write_ready [OF c ne] c a
  by (auto simp: written_def tcp_backlog_def ready_def answers_def steady_def)

text \<open>One command and its reply: the bytes of the command go out, the reply comes back.\<close>

lemma roundtrip_ready:
  assumes c: "ready (stream c)" and E: "itoa_decimal E" and v: "wire_reply E enc r"
    and a: "answers (read_timeout c) (server (stream c)) (outbound (stream c)) (resp_command args) enc"
  shows "\<exists>s. roundtrip E tcp_net args c = (r, c\<lparr>stream := s\<rparr>) \<and> ready s \<and>
    outbound s = outbound (stream c) @ resp_command args \<and> server s = server (stream c)"
proof -
  have ne: "resp_command args \<noteq> []" by (simp add: resp_command_def)
  note w = conn_write_answers [OF c ne a]
  define c1 where "c1 = c\<lparr>stream := written (resp_command args) (stream c)\<rparr>"
  obtain s where s: "conn_parse_reply E tcp_net c1 = (r, c1\<lparr>stream := s\<rparr>)"
    "steady (read_timeout c) (outbound (stream c) @ resp_command args) (server (stream c)) s"
    "deadline s = None" "tcp_backlog s = []"
    using conn_parse_steady [of c1 _ _ enc "[]", OF _ _ _ v] w(2-4) by (auto simp: c1_def)
  have "roundtrip E tcp_net args c = (r, c\<lparr>stream := s\<rparr>)"
    using w(1) s(1) E by (simp add: roundtrip_def append_args_command c1_def)
  then show ?thesis
    using drained_ready [OF s(2-4)] s(2) by (auto simp: steady_def)
qed

end
