(* ===== verification/Client_Laws.thy ===== *)
theory Client_Laws imports Client Session begin

text \<open>
  What a command does: on a pool with a working connection it sends exactly its bytes, returns the
  reply and puts the connection back; whatever happens, the pool stays sound and gets its permit
  back; and the conversions of the replies into the types of the methods.
\<close>

section \<open>One command on a pooled connection\<close>

text \<open>An exchange that leaves a working connection working.\<close>

definition completes ::
  "(tcp connection \<Rightarrow> 'a res \<times> tcp connection) \<Rightarrow> tcp connection \<Rightarrow> 'a res \<Rightarrow> tcp connection \<Rightarrow> bool" where
  "completes act c r c' \<longleftrightarrow> act c = (r, c') \<and> ready (stream c') \<and> settled r"

lemma ready_buffer: "ready (stream c) \<Longrightarrow> buffer_size tcp_net c = 0"
  by (simp add: ready_def buffer_size_def)

lemma guard_drop_ready:
  "ready (stream c) \<Longrightarrow> \<not> closed p \<Longrightarrow>
    guard_drop tcp_net c p =
      p\<lparr>permits := Suc (permits p), idle := idle p @ [\<lparr>pc_conn = c, used_at = clock p\<rparr>]\<rparr>"
  by (simp add: guard_drop_def pool_put_def ready_buffer release_def)

text \<open>The youngest idle connection serves, and is the youngest again afterwards.\<close>

lemma with_guard_clean:
  assumes "\<not> closed p" "0 < permits p" "idle p = older @ [pc]" "\<not> expired p pc"
    and "act (prepare (opts p) (pc_conn pc)) = (r, c')" "r \<noteq> Pending" "r \<noteq> Hang" "buffer_size N c' = 0"
  shows "with_guard N act p = (r, p\<lparr>idle := older @ [\<lparr>pc_conn = c', used_at = clock p\<rparr>]\<rparr>)"
proof -
  have "usable p = pc # rev older" using assms(3,4) by (simp add: usable_def)
  then have g: "pool_get p =
      (Ok (prepare (opts p) (pc_conn pc)), p\<lparr>permits := permits p - 1, idle := older\<rparr>)"
    using pool_get_result [OF assms(1,2)] by simp
  then show ?thesis
    using assms by (simp add: with_guard_def guard_drop_def pool_put_def release_def)
qed

lemma with_guard_idle:
  assumes "\<not> closed p" "0 < permits p" "idle p = older @ [pc]" "\<not> expired p pc"
    and "completes act (prepare (opts p) (pc_conn pc)) r c'"
  shows "with_guard tcp_net act p =
    (r, p\<lparr>idle := older @ [\<lparr>pc_conn = c', used_at = clock p\<rparr>]\<rparr>)"
proof -
  have "r \<noteq> Pending" "r \<noteq> Hang" using assms(5) by (auto simp: completes_def)
  then show ?thesis
    using with_guard_clean [OF assms(1-4), of act r c' tcp_net] assms(5) ready_buffer
    by (simp add: completes_def)
qed

text \<open>Without an idle connection a new one is dialled, and stays in the pool.\<close>

lemma with_guard_fresh:
  assumes "\<not> closed p" "0 < permits p" "usable p = []"
    and "pool_dial (p\<lparr>permits := permits p - 1, idle := []\<rparr>) = (Ok c, q)"
    and "completes act c r c'"
  shows "with_guard tcp_net act p =
    (r, q\<lparr>permits := permits p, idle := [\<lparr>pc_conn = c', used_at = clock p\<rparr>]\<rparr>)"
proof -
  have g: "pool_get p = (Ok c, q)" using pool_get_result [OF assms(1,2)] assms(3,4) by simp
  have q: "idle q = []" "closed q = closed p" "clock q = clock p" "permits q = permits p - 1"
    using pool_dial_facts [OF assms(4)] by simp_all
  have a: "act c = (r, c')" "ready (stream c')" "r \<noteq> Pending" "r \<noteq> Hang"
    using assms(5) by (auto simp: completes_def)
  then show ?thesis
    using g q assms(1,2) guard_drop_ready [OF a(2), of q] by (simp add: with_guard_def)
qed

lemma prepare_prepare [simp]: "prepare o' ((prepare o' c)\<lparr>stream := s\<rparr>) = (prepare o' c)\<lparr>stream := s\<rparr>"
  by (cases c) (simp add: prepare_def set_read_timeout_def set_write_timeout_def)

text \<open>
  A client whose youngest idle connection works: \<open>t\<close> is its stream. This is what a command finds
  and what it leaves behind.
\<close>

definition serving :: "tcp Client \<Rightarrow> tcp \<Rightarrow> bool" where
  "serving cl t \<longleftrightarrow>
    (let p = client_pool cl in
     \<not> closed p \<and> 0 < permits p \<and> ready t \<and>
     (\<exists>older pc. idle p = older @ [pc] \<and> stream (pc_conn pc) = t \<and> \<not> expired p pc))"

lemma not_expired_now: "\<not> expired (p\<lparr>idle := xs\<rparr>) \<lparr>pc_conn = c, used_at = clock p\<rparr>"
  by (simp add: expired_def split: option.splits)

lemma on_pool_serving:
  assumes cl: "serving cl t"
    and act: "\<And>c. stream c = t \<Longrightarrow> read_timeout c = opt_read_timeout (opts (client_pool cl)) \<Longrightarrow>
      \<exists>s. completes act c r (c\<lparr>stream := s\<rparr>) \<and> outbound s = outbound t @ bs \<and> server s = server t"
  shows "\<exists>cl' t'. on_pool (with_guard tcp_net act) cl = (r, cl') \<and> serving cl' t' \<and>
    outbound t' = outbound t @ bs \<and> server t' = server t \<and>
    opts (client_pool cl') = opts (client_pool cl) \<and>
    permits (client_pool cl') = permits (client_pool cl) \<and>
    length (idle (client_pool cl')) = length (idle (client_pool cl))"
proof -
  define p where "p = client_pool cl"
  obtain older pc where p: "\<not> closed p" "0 < permits p" "idle p = older @ [pc]"
    "stream (pc_conn pc) = t" "\<not> expired p pc"
    using cl by (auto simp: serving_def Let_def p_def)
  obtain s where s: "completes act (prepare (opts p) (pc_conn pc)) r
        ((prepare (opts p) (pc_conn pc))\<lparr>stream := s\<rparr>)"
    "outbound s = outbound t @ bs" "server s = server t"
    using act [of "prepare (opts p) (pc_conn pc)"] p(4) by (auto simp: p_def)
  define pc' where "pc' = \<lparr>pc_conn = (prepare (opts p) (pc_conn pc))\<lparr>stream := s\<rparr>, used_at = clock p\<rparr>"
  have g: "with_guard tcp_net act p = (r, p\<lparr>idle := older @ [pc']\<rparr>)"
    using with_guard_idle [OF p(1,2,3,5) s(1)] by (simp add: pc'_def)
  have "ready s" using s(1) by (simp add: completes_def)
  moreover have "\<not> expired (p\<lparr>idle := older @ [pc']\<rparr>) pc'"
    unfolding pc'_def by (rule not_expired_now)
  ultimately have "serving (cl\<lparr>client_pool := p\<lparr>idle := older @ [pc']\<rparr>\<rparr>) s"
    using p by (auto simp: serving_def pc'_def)
  then show ?thesis
    using g s(2,3) p(3)
    by (intro exI [of _ "cl\<lparr>client_pool := p\<lparr>idle := older @ [pc']\<rparr>\<rparr>"] exI [of _ s])
      (simp add: on_pool_def p_def)
qed

text \<open>The client's view of one command.\<close>

definition served ::
  "env \<Rightarrow> tcp Client \<Rightarrow> tcp \<Rightarrow> bytes \<Rightarrow> bytes \<Rightarrow> bool" where
  "served E cl t new back \<longleftrightarrow>
    itoa_decimal E \<and> serving cl t \<and>
    answers (opt_read_timeout (opts (client_pool cl))) (server t) (outbound t) new back"

lemma process_cmd_serving:
  assumes "served E cl t (resp_command args) enc" "wire_reply E enc r"
  shows "\<exists>cl' t'. process_cmd E tcp_net args cl = (r, cl') \<and> serving cl' t' \<and>
    outbound t' = outbound t @ resp_command args \<and> server t' = server t \<and>
    opts (client_pool cl') = opts (client_pool cl) \<and>
    permits (client_pool cl') = permits (client_pool cl) \<and>
    length (idle (client_pool cl')) = length (idle (client_pool cl))"
  unfolding process_cmd_def
proof (rule on_pool_serving)
  show "serving cl t" using assms(1) by (simp add: served_def)
next
  fix c :: "tcp connection"
  assume c: "stream c = t" "read_timeout c = opt_read_timeout (opts (client_pool cl))"
  have "settled r" using assms(2) by (simp add: wire_reply_def)
  then show "\<exists>s. completes (roundtrip E tcp_net args) c r (c\<lparr>stream := s\<rparr>) \<and>
      outbound s = outbound t @ resp_command args \<and> server s = server t"
    using roundtrip_ready [of c E enc r args] assms c
    by (auto simp: completes_def served_def serving_def Let_def)
qed

section \<open>What every command keeps\<close>

lemma on_pool_balanced:
  assumes "pool_ok N (client_pool cl)" "on_pool (with_guard N act) cl = (r, cl')"
    and "returned r \<or> r = Panic"
  shows "pool_ok N (client_pool cl') \<and> permits (client_pool cl') = permits (client_pool cl)"
proof -
  obtain p' where "with_guard N act (client_pool cl) = (r, p')" "cl' = cl\<lparr>client_pool := p'\<rparr>"
    using assms(2) by (auto simp: on_pool_def split: prod.splits)
  then show ?thesis using with_guard_balanced [OF assms(1) _ assms(3)] by simp
qed

lemma reply_simps [simp, cmd_simps]:
  "snd (reply f m) = snd m" "snd (nil_reply g m) = snd m"
  "fst (reply f m) = bind_outcome (fst m) f"
  "fst (nil_reply g m) = (if fst m = Err ENil then Ok None else bind_outcome (fst m) g)"
  by (simp_all add: reply_def nil_reply_def split: prod.splits)

lemma with_guard_Ok:
  assumes "with_guard N act p = (Ok v, p')"
  shows "\<exists>c c'. act c = (Ok v, c')"
  using assms unfolding with_guard_def
  by (cases rule: and_then_cases) (auto split: prod.splits)

text \<open>Whatever the peer sends, the values a command works on are well-formed.\<close>

lemma conn_parse_reply_wf: "conn_parse_reply E N c = (Ok v, c') \<Longrightarrow> wf_Value v"
  using parse_f_wf(1)
  by (fastforce simp: conn_parse_reply_def io_timeout_def parse_reply_def
      split: option.splits prod.splits if_splits)

text \<open>A reply that is nil as a whole is always the error \<open>Nil\<close>, never a value.\<close>

lemma parse_slice_f_VNil: "parse_slice_f E R k n vals s \<noteq> (Ok VNil, t)"
proof (induction n arbitrary: vals s)
  case 0
  then show ?case by simp
next
  case (Suc n)
  show ?case
  proof
    assume "parse_slice_f E R k (Suc n) vals s = (Ok VNil, t)"
    then show False by (cases rule: parse_slice_round) (use Suc in auto)
  qed
qed

lemma dispatch_not_VNil:
  assumes "\<And>n s. slice n s \<noteq> (Ok VNil, t)"
  shows "dispatch E R slice line s \<noteq> (Ok VNil, t)"
  using assms
  by (auto simp: dispatch_def parse_integer_def parse_bulk_def bind_outcome_Ok_iff and_then_Ok_iff
      map_ok_Ok_iff split: list.split)

lemma conn_parse_reply_not_VNil: "conn_parse_reply E N c \<noteq> (Ok VNil, c')"
proof -
  have "parse_reply E N s \<noteq> (Ok VNil, t)" for s t
    unfolding parse_reply_def parse_reply_f_Suc
    by (auto simp: and_then_Ok_iff dispatch_not_VNil parse_slice_f_VNil)
  then show ?thesis
    by (auto simp: conn_parse_reply_def io_timeout_def split: option.splits prod.splits if_splits)
qed

lemma process_cmd_wf:
  assumes "process_cmd E N args cl = (Ok v, cl')"
  shows "wf_Value v \<and> v \<noteq> VNil"
proof -
  obtain p' where "with_guard N (roundtrip E N args) (client_pool cl) = (Ok v, p')"
    using assms by (auto simp: process_cmd_def on_pool_def split: prod.splits)
  then obtain c c' where "roundtrip E N args c = (Ok v, c')"
    using with_guard_Ok [of N "roundtrip E N args" "client_pool cl" v p'] by blast
  then show ?thesis
    unfolding roundtrip_def by (cases rule: and_then_cases) (auto simp: conn_parse_reply_not_VNil dest: conn_parse_reply_wf)
qed

section \<open>Conversions\<close>

lemma value_str_Some_iff: "value_str v = Some s \<longleftrightarrow> v = VBulkString s \<or> v = VStatus s"
  by (cases v) auto

lemma value_str_wf: "wf_Value v \<Longrightarrow> value_str v = Some s \<Longrightarrow> utf8_valid s"
  by (auto simp: value_str_Some_iff)

subsection \<open>\<open>hget_all\<close>\<close>

text \<open>The elements from an index on, two by two, as far as both are strings.\<close>

fun string_pairs :: "Value list \<Rightarrow> (string \<times> string) list option" where
  "string_pairs (x # y # rest) =
    (case (value_str x, value_str y) of
       (Some k, Some v) \<Rightarrow> map_option (\<lambda>ps. (k, v) # ps) (string_pairs rest)
     | _ \<Rightarrow> None)"
| "string_pairs _ = Some []"

lemma drop_two: "i + 1 < length arr \<Longrightarrow> drop i arr = arr ! i # arr ! (i + 1) # drop (i + 2) arr"
  by (metis Cons_nth_drop_Suc Suc_eq_plus1 add_2_eq_Suc' add_lessD1)

lemma drop_short: "\<not> i + 1 < length arr \<Longrightarrow> drop i arr = [] \<or> (\<exists>x. drop i arr = [x])"
  by (cases "drop i arr"; cases "tl (drop i arr)")
    (auto dest: arg_cong [of _ _ length])

lemma hget_all_loop_pairs:
  "string_pairs (drop i arr) = Some ps \<Longrightarrow>
    hget_all_loop arr i m = Some (foldl (\<lambda>m (k, v). m(k \<mapsto> v)) m ps)"
proof (induction "length arr - i" arbitrary: i m ps rule: less_induct)
  case less
  show ?case
  proof (cases "i + 1 < length arr")
    case True
    then obtain k v ps' where "value_str (arr ! i) = Some k" "value_str (arr ! (i + 1)) = Some v"
      "string_pairs (drop (i + 2) arr) = Some ps'" "ps = (k, v) # ps'"
      using less.prems drop_two [OF True] by (auto split: option.splits)
    then show ?thesis
      using less.hyps [of "i + 2" ps' "m(k \<mapsto> v)"] True
      by (subst hget_all_loop.simps) simp
  next
    case False
    then have "ps = []" using less.prems drop_short [OF False] by auto
    then show ?thesis using False by (subst hget_all_loop.simps) simp
  qed
qed

text \<open>Where a pair is not two strings, the loop never comes to an end.\<close>

lemma hget_all_loop_stuck:
  "hget_all_loop arr i m = Some y \<Longrightarrow> \<exists>ps. string_pairs (drop i arr) = Some ps"
proof (erule hget_all_loop.raw_induct
    [where P = "\<lambda>arr i m y. \<exists>ps. string_pairs (drop i arr) = Some ps", rotated])
  fix loop arr i m y
  assume 1: "\<And>arr i m y. loop arr i m = Some y \<Longrightarrow> \<exists>ps. string_pairs (drop i arr) = Some ps"
    "(if i + 1 < length arr
      then case value_str (arr ! i) of None \<Rightarrow> loop arr i m
           | Some k \<Rightarrow> (case value_str (arr ! (i + 1)) of None \<Rightarrow> loop arr i m
                        | Some v \<Rightarrow> loop arr (i + 2) (m(k \<mapsto> v)))
      else Some m) = Some y"
  show "\<exists>ps. string_pairs (drop i arr) = Some ps"
  proof (cases "i + 1 < length arr")
    case True
    consider (pair) k v where "value_str (arr ! i) = Some k" "value_str (arr ! (i + 1)) = Some v"
        "loop arr (i + 2) (m(k \<mapsto> v)) = Some y"
      | (same) "loop arr i m = Some y"
      using 1(2) True by (auto split: option.splits)
    then show ?thesis
    proof cases
      case pair
      then show ?thesis using 1(1) drop_two [OF True] by fastforce
    next
      case same
      then show ?thesis using 1(1) by blast
    qed
  next
    case False
    then show ?thesis using drop_short [OF False] by auto
  qed
qed

lemma as_string_map_pairs:
  "as_string_map arr =
    (case string_pairs arr of
       Some ps \<Rightarrow> Ok (foldl (\<lambda>m (k, v). m(k \<mapsto> v)) Map.empty ps)
     | None \<Rightarrow> Hang)"
proof (cases "string_pairs arr")
  case None
  then have "hget_all_loop arr 0 Map.empty = None"
    using hget_all_loop_stuck [of arr 0 Map.empty] by (cases "hget_all_loop arr 0 Map.empty") auto
  then show ?thesis using None by (simp add: as_string_map_def)
next
  case (Some ps)
  then show ?thesis using hget_all_loop_pairs [of 0 arr ps] by (simp add: as_string_map_def)
qed

subsection \<open>Members with scores\<close>

text \<open>The loop of \<open>array_to_z_vec\<close> as a recursion on the list.\<close>

fun z_pairs :: "Value list \<Rightarrow> Z list res" where
  "z_pairs (x # y # rest) =
    (case (value_str x, value_str y) of
       (Some m, Some s) \<Rightarrow>
         (case parse_f64 s of
            None \<Rightarrow> Err (from_str ''invalid float in zrange'')
          | Some f \<Rightarrow> map_ok (\<lambda>zz. \<lparr>score = f, zmember = m\<rparr> # zz) (z_pairs rest))
     | _ \<Rightarrow> z_pairs (y # rest))"
| "z_pairs _ = Ok []"

lemma map_ok_map_ok [simp]: "map_ok f (map_ok g r) = map_ok (\<lambda>x. f (g x)) r"
  by (cases r) auto

lemma map_ok_ident [simp]: "map_ok (\<lambda>x. x) r = r"
  by (cases r) auto

lemma z_vec_loop_pairs: "z_vec_loop arr i zz = map_ok (\<lambda>ys. zz @ ys) (z_pairs (drop i arr))"
proof (induction "length arr - i" arbitrary: i zz rule: less_induct)
  case less
  show ?case
  proof (cases "i + 1 < length arr")
    case True
    have d: "drop i arr = arr ! i # arr ! (i + 1) # drop (i + 2) arr" by (rule drop_two [OF True])
    have d1: "drop (i + 1) arr = arr ! (i + 1) # drop (i + 2) arr"
      using d by (metis drop_Suc_Cons drop_0 drop_drop plus_1_eq_Suc)
    have IH: "z_vec_loop arr (i + 1) zz = map_ok (\<lambda>ys. zz @ ys) (z_pairs (drop (i + 1) arr))"
      "\<And>ws. z_vec_loop arr (i + 2) ws = map_ok (\<lambda>ys. ws @ ys) (z_pairs (drop (i + 2) arr))"
      using less.hyps [of "i + 1"] less.hyps [of "i + 2"] True by auto
    show ?thesis
      by (subst z_vec_loop.simps, subst d) (use IH d1 True in \<open>simp split: option.split\<close>)
  next
    case False
    then have "z_pairs (drop i arr) = Ok []" using drop_short [OF False] by auto
    then show ?thesis using False by (subst z_vec_loop.simps) simp
  qed
qed

lemma array_to_z_vec_pairs: "array_to_z_vec arr = z_pairs arr"
  by (simp add: array_to_z_vec_def z_vec_loop_pairs)

section \<open>A new client\<close>

text \<open>The commands of the callback for a new connection.\<close>

definition greeting :: "string option \<Rightarrow> int \<Rightarrow> string list list" where
  "greeting pwd i =
    (case pwd of Some w \<Rightarrow> [[''AUTH'', w]] | None \<Rightarrow> []) @
    (if 0 < i then [[''SELECT'', show_int i]] else [])"

text \<open>The peer says OK to each of them.\<close>

definition welcomes :: "nat option \<Rightarrow> (bytes \<Rightarrow> bytes \<Rightarrow> (nat \<times> net_event) list) \<Rightarrow> string list list \<Rightarrow> bool" where
  "welcomes limit f cmds \<longleftrightarrow>
    (\<forall>args \<in> set cmds. \<forall>sent. answers limit f sent (resp_command args) (encode_value (VStatus ''OK'')))"

lemma fits_OK [simp]: "fits E (VStatus ''OK'')"
  using utf8_valid_ascii [of "''OK''"] by (simp add: line_text_def MAX_LINE_LEN_def)

lemma init_command_ok:
  assumes "ready (stream c)" "itoa_decimal E"
    and "answers (read_timeout c) (server (stream c)) (outbound (stream c)) (resp_command args)
           (encode_value (VStatus ''OK''))"
  shows "\<exists>s. init_command E tcp_net args c = (Ok (), c\<lparr>stream := s\<rparr>) \<and> ready s \<and>
    outbound s = outbound (stream c) @ resp_command args \<and> server s = server (stream c)"
  using roundtrip_ready [OF assms(1,2) wire_reply_value [OF fits_OK] assms(3)]
  by (auto simp: init_command_def check_ok_def eq_ignore_ascii_case_def)

lemma init_callback_ok:
  assumes c: "ready (stream c)" and E: "itoa_decimal E"
    and w: "welcomes (read_timeout c) (server (stream c)) (greeting pwd i)"
  shows "\<exists>s. init_callback E tcp_net pwd i c = Ok (c\<lparr>stream := s\<rparr>) \<and> ready s \<and>
    outbound s = outbound (stream c) @ concat (map resp_command (greeting pwd i)) \<and>
    server s = server (stream c)"
proof -
  have auth: "\<exists>s. (case pwd of Some x \<Rightarrow> init_command E tcp_net [''AUTH'', x] c | None \<Rightarrow> (Ok (), c)) =
      (Ok (), c\<lparr>stream := s\<rparr>) \<and> ready s \<and> server s = server (stream c) \<and>
      outbound s = outbound (stream c) @
        concat (map resp_command (case pwd of Some x \<Rightarrow> [[''AUTH'', x]] | None \<Rightarrow> []))"
  proof (cases pwd)
    case None
    then show ?thesis using c by (intro exI [of _ "stream c"]) simp
  next
    case (Some x)
    then show ?thesis
      using init_command_ok [OF c E, of "[''AUTH'', x]"] w by (auto simp: welcomes_def greeting_def)
  qed
  then obtain s where s: "(case pwd of Some x \<Rightarrow> init_command E tcp_net [''AUTH'', x] c | None \<Rightarrow> (Ok (), c)) =
      (Ok (), c\<lparr>stream := s\<rparr>)" "ready s" "server s = server (stream c)"
    "outbound s = outbound (stream c) @
        concat (map resp_command (case pwd of Some x \<Rightarrow> [[''AUTH'', x]] | None \<Rightarrow> []))"
    by blast
  show ?thesis
  proof (cases "0 < i")
    case False
    then show ?thesis
      using s by (intro exI [of _ s]) (simp add: init_callback_def greeting_def split: option.split)
  next
    case True
    have a: "answers (read_timeout c) (server s) (outbound s) (resp_command [''SELECT'', show_int i])
        (encode_value (VStatus ''OK''))"
      using w True s(3) by (auto simp: welcomes_def greeting_def)
    obtain u where u: "init_command E tcp_net [''SELECT'', show_int i] (c\<lparr>stream := s\<rparr>) =
        (Ok (), c\<lparr>stream := u\<rparr>)" "ready u" "server u = server s"
      "outbound u = outbound s @ resp_command [''SELECT'', show_int i]"
      using init_command_ok [of "c\<lparr>stream := s\<rparr>" E "[''SELECT'', show_int i]"] s(2) E a by auto
    then show ?thesis
      using s True by (intro exI [of _ u]) (simp add: init_callback_def greeting_def split: option.split)
  qed
qed

text \<open>
  The first command of a new client: the connection is dialled, introduced with the greeting, and
  then serves the command.
\<close>

lemma Client_new_dial:
  assumes net: "net (addr o') 0 = Some (d, Ok t)" "d \<le> co_dial_timeout o'" and t: "ready t"
    and E: "itoa_decimal E"
    and w: "welcomes (co_read_timeout o') (server t) (greeting (password o') (db o'))"
  defines "p \<equiv> (client_pool (Client_new E tcp_net net o'))\<lparr>permits := co_pool_size o' - 1, idle := []\<rparr>"
  shows "\<exists>c. pool_dial p = (Ok c, p\<lparr>dialled := 1\<rparr>) \<and> ready (stream c) \<and>
    read_timeout c = co_read_timeout o' \<and> server (stream c) = server t \<and>
    outbound (stream c) = outbound t @ concat (map resp_command (greeting (password o') (db o')))"
proof -
  define c0 where "c0 = prepare (opts p) (connection_new t)"
  have c0: "stream c0 = t" "read_timeout c0 = co_read_timeout o'"
    by (simp_all add: c0_def p_def Client_new_def pool_new_def connection_new_def)
  have d: "dial p (dialled p) = Ok t"
    using net by (simp add: p_def Client_new_def pool_new_def dial_tcp_def)
  have n: "dialled p = 0" by (simp add: p_def Client_new_def pool_new_def)
  obtain s where s: "init_callback E tcp_net (password o') (db o') c0 = Ok (c0\<lparr>stream := s\<rparr>)" "ready s"
    "outbound s = outbound t @ concat (map resp_command (greeting (password o') (db o')))"
    "server s = server t"
    using init_callback_ok [of c0 E "password o'" "db o'"] t E w c0 by auto
  show ?thesis
  proof (cases "password o' \<noteq> None \<or> db o' \<noteq> 0")
    case True
    then have i: "init_conn (opts p) = Some (init_callback E tcp_net (password o') (db o'))"
      by (simp add: p_def Client_new_def pool_new_def)
    show ?thesis
      using d i s n c0
      by (intro exI [of _ "c0\<lparr>stream := s\<rparr>"]) (simp add: pool_dial_def unwind_def c0_def)
  next
    case False
    then have "init_conn (opts p) = None" "greeting (password o') (db o') = []"
      by (simp_all add: p_def Client_new_def pool_new_def greeting_def)
    then show ?thesis
      using d t n c0
      by (intro exI [of _ c0]) (simp add: pool_dial_def unwind_def c0_def)
  qed
qed

lemma new_client_command:
  assumes net: "net (addr o') 0 = Some (d, Ok t)" "d \<le> co_dial_timeout o'" and t: "ready t"
    and E: "itoa_decimal E" and n: "0 < co_pool_size o'"
    and w: "welcomes (co_read_timeout o') (server t) (greeting (password o') (db o'))"
    and a: "answers (co_read_timeout o') (server t)
              (outbound t @ concat (map resp_command (greeting (password o') (db o'))))
              (resp_command args) enc"
    and r: "wire_reply E enc r"
  shows "\<exists>cl' t'. process_cmd E tcp_net args (Client_new E tcp_net net o') = (r, cl') \<and>
    serving cl' t' \<and> server t' = server t \<and> permits (client_pool cl') = co_pool_size o' \<and>
    outbound t' = outbound t @ concat (map resp_command (greeting (password o') (db o') @ [args]))"
proof -
  define cl where "cl = Client_new E tcp_net net o'"
  define p where "p = client_pool cl"
  have p: "\<not> closed p" "0 < permits p" "idle p = []" "permits p = co_pool_size o'"
    using n by (simp_all add: p_def cl_def Client_new_def pool_new_def)
  obtain c where c: "pool_dial (p\<lparr>permits := permits p - 1, idle := []\<rparr>) =
      (Ok c, p\<lparr>permits := permits p - 1, idle := [], dialled := 1\<rparr>)" "ready (stream c)"
    "read_timeout c = co_read_timeout o'" "server (stream c) = server t"
    "outbound (stream c) = outbound t @ concat (map resp_command (greeting (password o') (db o')))"
    using Client_new_dial [of net o' d t E, OF net t E w] p(4) by (auto simp: p_def cl_def)
  obtain s where s: "roundtrip E tcp_net args c = (r, c\<lparr>stream := s\<rparr>)" "ready s"
    "outbound s = outbound (stream c) @ resp_command args" "server s = server (stream c)"
    using roundtrip_ready [of c E enc r args] c E r a by auto
  have comp: "completes (roundtrip E tcp_net args) c r (c\<lparr>stream := s\<rparr>)"
    using s r by (simp add: completes_def wire_reply_def)
  define pc where "pc = \<lparr>pc_conn = c\<lparr>stream := s\<rparr>, used_at = clock p\<rparr>"
  define q where "q = p\<lparr>dialled := 1, idle := [pc]\<rparr>"
  have "usable p = []" using p(3) by (simp add: usable_def)
  then have g: "with_guard tcp_net (roundtrip E tcp_net args) p = (r, q)"
    using with_guard_fresh [OF p(1,2) _ c(1) comp] p(2) by (simp add: q_def pc_def)
  have "\<not> expired q pc"
    unfolding q_def pc_def by (simp add: expired_def split: option.split)
  then have "serving (cl\<lparr>client_pool := q\<rparr>) s"
    using p s(2) by (auto simp: serving_def q_def pc_def)
  then show ?thesis
    using g s(3,4) c(4,5) p(4)
    by (intro exI [of _ "cl\<lparr>client_pool := q\<rparr>"] exI [of _ s])
      (simp add: process_cmd_def on_pool_def p_def [symmetric] cl_def [symmetric] q_def)
qed

end
