(* ===== verification/Batch_Laws.thy ===== *)
theory Batch_Laws imports Multi Client_Laws begin

text \<open>
  Pipelines and transactions on a working connection: the bytes that go out, and how the replies are
  taken apart.
\<close>

section \<open>The bytes\<close>

lemma foldl_append_args [wire_simps]:
  "itoa_decimal E \<Longrightarrow> foldl (append_args E) b cmds = b @ concat (map resp_command cmds)"
  by (induction cmds arbitrary: b) (simp_all add: append_args_command)

lemma transaction_bytes_eq [wire_simps]:
  "itoa_decimal E \<Longrightarrow>
    transaction_bytes E cmds = concat (map resp_command ([''MULTI''] # cmds @ [[''EXEC'']]))"
  by (simp add: transaction_bytes_def foldl_append_args append_args_command)

lemma resp_commands_nonempty: "cmds \<noteq> [] \<Longrightarrow> concat (map resp_command cmds) \<noteq> []"
  by (cases cmds) (simp_all add: resp_command_def)

lemma foldl_unit: "foldl (\<lambda>u v. u) () vs = ()"
  by simp

lemma wire_replies:
  "\<forall>v \<in> set vs. fits E v \<and> v \<noteq> VNil \<Longrightarrow>
    list_all2 (\<lambda>enc v. wire_reply E enc (Ok v)) (map encode_value vs) vs"
proof (induction vs)
  case Nil
  then show ?case by simp
next
  case (Cons v vs)
  then have "wire_reply E (encode_value v) (as_result v)" by (simp add: wire_reply_value)
  then show ?case using Cons by (cases v) auto
qed

section \<open>Pipelines\<close>

text \<open>
  The replies up to the first error are read; without one they are the result, and with one it is
  the error, and what the peer sends after it stays unread.
\<close>

lemma run_batch_steady:
  assumes c: "ready (stream c)" and E: "itoa_decimal E" and ne: "cmds \<noteq> []"
    and a: "answers (read_timeout c) (server (stream c)) (outbound (stream c))
              (concat (map resp_command cmds)) (concat encs @ rest)"
    and r: "list_all2 (\<lambda>enc v. wire_reply E enc (Ok v)) encs vs" and n: "length cmds = length vs + k"
  shows "\<exists>s. run_batch E tcp_net cmds c =
      parse_loop (conn_parse_reply E tcp_net) (\<lambda>rs v. rs @ [v]) k vs (c\<lparr>stream := s\<rparr>) \<and>
    steady (read_timeout c) (outbound (stream c) @ concat (map resp_command cmds)) (server (stream c)) s \<and>
    deadline s = None \<and> tcp_backlog s = rest"
proof -
  define bs where "bs = concat (map resp_command cmds)"
  note w = conn_write_answers [OF c resp_commands_nonempty [OF ne] a, folded bs_def]
  define c1 where "c1 = c\<lparr>stream := written bs (stream c)\<rparr>"
  have "steady (read_timeout c1) (outbound (stream c) @ bs) (server (stream c)) (stream c1)"
    "deadline (stream c1) = None" "tcp_backlog (stream c1) = concat encs @ rest"
    using w(2-4) by (simp_all add: c1_def)
  from parse_loop_steady [OF this r, of "\<lambda>rs v. rs @ [v]" "[]"]
  obtain s where s: "parse_loop (conn_parse_reply E tcp_net) (\<lambda>rs v. rs @ [v]) (length vs + k) [] c1 =
      parse_loop (conn_parse_reply E tcp_net) (\<lambda>rs v. rs @ [v]) k vs (c1\<lparr>stream := s\<rparr>)"
    "steady (read_timeout c1) (outbound (stream c) @ bs) (server (stream c)) s"
    "deadline s = None" "tcp_backlog s = rest"
    by (auto simp: foldl_snoc)
  then show ?thesis
    using w(1) E n
    by (intro exI [of _ s])
      (simp add: run_batch_def read_replies_def foldl_append_args bs_def [symmetric] c1_def)
qed

lemma run_batch_ok:
  assumes c: "ready (stream c)" and E: "itoa_decimal E" and ne: "cmds \<noteq> []"
    and a: "answers (read_timeout c) (server (stream c)) (outbound (stream c))
              (concat (map resp_command cmds)) (concat encs)"
    and r: "list_all2 (\<lambda>enc v. wire_reply E enc (Ok v)) encs vs" and n: "length cmds = length vs"
  shows "\<exists>s. completes (run_batch E tcp_net cmds) c (Ok vs) (c\<lparr>stream := s\<rparr>) \<and>
    outbound s = outbound (stream c) @ concat (map resp_command cmds) \<and> server s = server (stream c)"
proof -
  have "answers (read_timeout c) (server (stream c)) (outbound (stream c))
      (concat (map resp_command cmds)) (concat encs @ [])" using a by simp
  from run_batch_steady [OF c E ne this r, of 0] n
  obtain s where "run_batch E tcp_net cmds c = (Ok vs, c\<lparr>stream := s\<rparr>)"
    "steady (read_timeout c) (outbound (stream c) @ concat (map resp_command cmds)) (server (stream c)) s"
    "deadline s = None" "tcp_backlog s = []" by auto
  then show ?thesis using drained_ready by (auto simp: completes_def steady_def)
qed

lemma run_batch_error:
  assumes c: "ready (stream c)" and E: "itoa_decimal E"
    and a: "answers (read_timeout c) (server (stream c)) (outbound (stream c))
              (concat (map resp_command cmds)) (concat encs @ enc @ rest)"
    and r: "list_all2 (\<lambda>enc v. wire_reply E enc (Ok v)) encs vs" and n: "length vs < length cmds"
    and e: "wire_reply E enc (Err e)"
  shows "\<exists>s. run_batch E tcp_net cmds c = (Err e, c\<lparr>stream := s\<rparr>) \<and> tcp_backlog s = rest"
proof -
  have ne: "cmds \<noteq> []" using n by auto
  obtain k where k: "length cmds = length vs + Suc k" using n by (metis less_iff_Suc_add add_Suc_right)
  from run_batch_steady [OF c E ne a r k]
  obtain s where s: "run_batch E tcp_net cmds c =
      parse_loop (conn_parse_reply E tcp_net) (\<lambda>rs v. rs @ [v]) (Suc k) vs (c\<lparr>stream := s\<rparr>)"
    "steady (read_timeout c) (outbound (stream c) @ concat (map resp_command cmds)) (server (stream c)) s"
    "deadline s = None" "tcp_backlog s = enc @ rest" by blast
  obtain u where "conn_parse_reply E tcp_net (c\<lparr>stream := s\<rparr>) = (Err e, c\<lparr>stream := u\<rparr>)"
    "tcp_backlog u = rest"
    using conn_parse_steady [of "c\<lparr>stream := s\<rparr>" _ _ enc rest, OF _ _ _ e] s(2-4) by auto
  then show ?thesis using s(1) by auto
qed

lemma pipeline_execute_ok:
  assumes ne: "pl_cmds p \<noteq> []"
    and s: "served E (pl_client p) t (concat (map resp_command (pl_cmds p))) (concat encs)"
    and r: "list_all2 (\<lambda>enc v. wire_reply E enc (Ok v)) encs vs" and n: "length (pl_cmds p) = length vs"
  shows "\<exists>p' t'. pipeline_execute E tcp_net p = (Ok vs, p') \<and> pl_cmds p' = [] \<and>
    serving (pl_client p') t' \<and> outbound t' = outbound t @ concat (map resp_command (pl_cmds p)) \<and>
    server t' = server t \<and> opts (client_pool (pl_client p')) = opts (client_pool (pl_client p))"
proof -
  have "serving (pl_client p) t" and E: "itoa_decimal E"
    and a: "answers (opt_read_timeout (opts (client_pool (pl_client p)))) (server t) (outbound t)
      (concat (map resp_command (pl_cmds p))) (concat encs)"
    using s by (auto simp: served_def)
  then have "\<exists>cl' t'. on_pool (with_guard tcp_net (run_batch E tcp_net (pl_cmds p))) (pl_client p) = (Ok vs, cl') \<and>
      serving cl' t' \<and> outbound t' = outbound t @ concat (map resp_command (pl_cmds p)) \<and>
      server t' = server t \<and> opts (client_pool cl') = opts (client_pool (pl_client p)) \<and>
      permits (client_pool cl') = permits (client_pool (pl_client p)) \<and>
      length (idle (client_pool cl')) = length (idle (client_pool (pl_client p)))"
    by (intro on_pool_serving)
      (use run_batch_ok [OF _ E ne _ r n] in \<open>auto simp: serving_def Let_def\<close>)
  then show ?thesis using ne by (auto simp: pipeline_execute_def Let_def)
qed

lemma pipeline_execute_error:
  assumes s: "served E (pl_client p) t (concat (map resp_command (pl_cmds p))) (concat encs @ enc @ rest)"
    and r: "list_all2 (\<lambda>enc v. wire_reply E enc (Ok v)) encs vs" and n: "length vs < length (pl_cmds p)"
    and e: "wire_reply E enc (Err e)"
  shows "\<exists>p'. pipeline_execute E tcp_net p = (Err e, p') \<and> pl_cmds p' = []"
proof -
  define q where "q = client_pool (pl_client p)"
  obtain older pc where q: "\<not> closed q" "0 < permits q" "idle q = older @ [pc]" "stream (pc_conn pc) = t"
    "\<not> expired q pc" "ready t"
    using s by (auto simp: served_def serving_def Let_def q_def)
  define c where "c = prepare (opts q) (pc_conn pc)"
  have c: "ready (stream c)" "answers (read_timeout c) (server (stream c)) (outbound (stream c))
      (concat (map resp_command (pl_cmds p))) (concat encs @ enc @ rest)" "itoa_decimal E"
    using s q(4,6) by (simp_all add: c_def served_def q_def)
  obtain c' where run: "run_batch E tcp_net (pl_cmds p) c = (Err e, c')"
    using run_batch_error [OF c(1,3,2) r n e] by blast
  have "usable q = pc # rev older" using q(3,5) by (simp add: usable_def)
  then have "pool_get q = (Ok c, q\<lparr>permits := permits q - 1, idle := older\<rparr>)"
    using pool_get_result [OF q(1,2)] by (simp add: c_def)
  moreover have "pl_cmds p \<noteq> []" using n by auto
  ultimately show ?thesis
    using run by (simp add: pipeline_execute_def on_pool_def with_guard_def Let_def q_def)
qed

section \<open>Transactions\<close>

lemma run_transaction_ok:
  assumes c: "ready (stream c)" and E: "itoa_decimal E"
    and a: "answers (read_timeout c) (server (stream c)) (outbound (stream c))
              (concat (map resp_command ([''MULTI''] # cmds @ [[''EXEC'']]))) (ok @ concat queued @ enc)"
    and ok: "wire_reply E ok (Ok v)" and q: "list_all2 (\<lambda>enc v. wire_reply E enc (Ok v)) queued vs"
    and n: "length vs = length cmds" and e: "wire_reply E enc r"
  shows "\<exists>s. completes (run_transaction E tcp_net cmds) c (exec_result E r) (c\<lparr>stream := s\<rparr>) \<and>
    outbound s = outbound (stream c) @ concat (map resp_command ([''MULTI''] # cmds @ [[''EXEC'']])) \<and>
    server s = server (stream c)"
proof -
  define bs where "bs = concat (map resp_command ([''MULTI''] # cmds @ [[''EXEC'']]))"
  have ne: "bs \<noteq> []" unfolding bs_def by (rule resp_commands_nonempty) simp
  note w = conn_write_answers [OF c ne a [folded bs_def]]
  define c1 where "c1 = c\<lparr>stream := written bs (stream c)\<rparr>"
  have "steady (read_timeout c1) (outbound (stream c) @ bs) (server (stream c)) (stream c1)"
    "deadline (stream c1) = None" "tcp_backlog (stream c1) = ok @ (concat queued @ enc)"
    using w(2-4) by (simp_all add: c1_def)
  from conn_parse_steady [OF this ok]
  obtain s where s: "conn_parse_reply E tcp_net c1 = (Ok v, c1\<lparr>stream := s\<rparr>)"
    "steady (read_timeout c1) (outbound (stream c) @ bs) (server (stream c)) s"
    "deadline s = None" "tcp_backlog s = concat queued @ enc" by blast
  define c2 where "c2 = c1\<lparr>stream := s\<rparr>"
  have "steady (read_timeout c2) (outbound (stream c) @ bs) (server (stream c)) (stream c2)"
    "deadline (stream c2) = None" "tcp_backlog (stream c2) = concat queued @ enc"
    using s(2-4) by (simp_all add: c2_def)
  from parse_loop_steady [OF this q, of "\<lambda>u x. u" "()"]
  obtain u where u: "\<And>k. parse_loop (conn_parse_reply E tcp_net) (\<lambda>u x. u) (length vs + k) () c2 =
      parse_loop (conn_parse_reply E tcp_net) (\<lambda>u x. u) k () (c2\<lparr>stream := u\<rparr>)"
    "steady (read_timeout c2) (outbound (stream c) @ bs) (server (stream c)) u"
    "deadline u = None" "tcp_backlog u = enc"
    by auto
  have l: "parse_loop (conn_parse_reply E tcp_net) (\<lambda>u x. u) (length cmds) () c2 =
      (Ok (), c2\<lparr>stream := u\<rparr>)"
    using u(1) [of 0] n by simp
  define c3 where "c3 = c2\<lparr>stream := u\<rparr>"
  have "steady (read_timeout c3) (outbound (stream c) @ bs) (server (stream c)) (stream c3)"
    "deadline (stream c3) = None" "tcp_backlog (stream c3) = enc @ []"
    using u(2-4) by (simp_all add: c3_def)
  from conn_parse_steady [OF this e]
  obtain x where x: "conn_parse_reply E tcp_net c3 = (r, c3\<lparr>stream := x\<rparr>)"
    "steady (read_timeout c3) (outbound (stream c) @ bs) (server (stream c)) x"
    "deadline x = None" "tcp_backlog x = []" by blast
  have tb: "transaction_bytes E cmds = bs" unfolding bs_def by (rule transaction_bytes_eq [OF E])
  have run: "run_transaction E tcp_net cmds c = (exec_result E r, c\<lparr>stream := x\<rparr>)"
    using w(1) s(1) l x(1) by (simp add: run_transaction_def tb c1_def c2_def c3_def)
  have "settled r" using e by (simp add: wire_reply_def)
  then have "settled (exec_result E r)"
    by (cases r) (auto simp: exec_result_def redis_error_def split: Value.splits Error.splits)
  then show ?thesis
    using run drained_ready [OF x(2-4)] x(2) by (auto simp: completes_def steady_def bs_def)
qed

text \<open>What EXEC means for the caller.\<close>

fun exec_answer :: "env \<Rightarrow> Value \<Rightarrow> Value list res" where
  "exec_answer E VNil = Err ETxFailed"
| "exec_answer E (VArray vs) = (if vs = [] then Err ETxFailed else Ok vs)"
| "exec_answer E v = Err (EOther (''unexpected reply: '' @ debug_value E v))"

lemma exec_result_value: "exec_result E (as_result v) = exec_answer E v"
  by (cases v) (simp_all add: exec_result_def)

lemma multi_exec_ok:
  assumes ne: "mu_cmds m \<noteq> []"
    and s: "served E (mu_client m) t (concat (map resp_command ([''MULTI''] # mu_cmds m @ [[''EXEC'']])))
              (ok @ concat queued @ enc)"
    and ok: "wire_reply E ok (Ok v)" and q: "list_all2 (\<lambda>enc v. wire_reply E enc (Ok v)) queued vs"
    and n: "length vs = length (mu_cmds m)" and e: "wire_reply E enc r"
  shows "\<exists>m' t'. multi_exec E tcp_net m = (exec_result E r, m') \<and> mu_cmds m' = [] \<and>
    serving (mu_client m') t' \<and>
    outbound t' = outbound t @ concat (map resp_command ([''MULTI''] # mu_cmds m @ [[''EXEC'']])) \<and>
    server t' = server t \<and> opts (client_pool (mu_client m')) = opts (client_pool (mu_client m))"
proof -
  have "serving (mu_client m) t" and E: "itoa_decimal E"
    and a: "answers (opt_read_timeout (opts (client_pool (mu_client m)))) (server t) (outbound t)
      (concat (map resp_command ([''MULTI''] # mu_cmds m @ [[''EXEC'']]))) (ok @ concat queued @ enc)"
    using s by (auto simp: served_def)
  then have "\<exists>cl' t'. on_pool (with_guard tcp_net (run_transaction E tcp_net (mu_cmds m))) (mu_client m) =
      (exec_result E r, cl') \<and> serving cl' t' \<and>
      outbound t' = outbound t @ concat (map resp_command ([''MULTI''] # mu_cmds m @ [[''EXEC'']])) \<and>
      server t' = server t \<and> opts (client_pool cl') = opts (client_pool (mu_client m)) \<and>
      permits (client_pool cl') = permits (client_pool (mu_client m)) \<and>
      length (idle (client_pool cl')) = length (idle (client_pool (mu_client m)))"
    by (intro on_pool_serving)
      (use run_transaction_ok [OF _ E _ ok q n e] in \<open>auto simp: serving_def Let_def\<close>)
  then show ?thesis using ne by (auto simp: multi_exec_def Let_def)
qed

end
