(* ===== verification/Remote.thy ===== *)
theory Remote imports Batch_Laws begin

text \<open>
  The client as a remote control: a server that is any state machine answering commands, and the
  refinement of its direct use by the use through the client, over the wire, command by command, in
  pipelines and in transactions.
\<close>

section \<open>The server as a state machine\<close>

text \<open>A command changes the state and gives an error message or a reply.\<close>

type_synonym 's machine = "'s \<Rightarrow> string list \<Rightarrow> (string + Value) \<times> 's"

fun run_machine :: "'s machine \<Rightarrow> 's \<Rightarrow> string list list \<Rightarrow> (string + Value) list \<times> 's" where
  "run_machine step s [] = ([], s)"
| "run_machine step s (args # cmds) =
    (case step s args of (r, s1) \<Rightarrow> case run_machine step s1 cmds of (rs, s2) \<Rightarrow> (r # rs, s2))"

fun encode_answer :: "string + Value \<Rightarrow> bytes" where
  "encode_answer (Inl msg) = encode_error msg"
| "encode_answer (Inr v) = encode_value v"

fun answer_result :: "string + Value \<Rightarrow> Value res" where
  "answer_result (Inl msg) = Err (ERedis (RedisError msg))"
| "answer_result (Inr v) = as_result v"

fun sendable :: "env \<Rightarrow> string + Value \<Rightarrow> bool" where
  "sendable E (Inl msg) = (line_text msg \<and> utf8_valid msg \<and> msg \<noteq> ''line too long'')"
| "sendable E (Inr v) = fits E v"

definition plain :: "env \<Rightarrow> string + Value \<Rightarrow> bool" where
  "plain E r \<longleftrightarrow> sendable E r \<and> (\<exists>v. r = Inr v \<and> v \<noteq> VNil)"

definition values_of :: "(string + Value) list \<Rightarrow> Value list" where
  "values_of rs = List.map_filter (\<lambda>r. case r of Inr v \<Rightarrow> Some v | Inl msg \<Rightarrow> None) rs"

section \<open>What a caller does\<close>

datatype op =
    Single "string list"
  | Batch "string list list"
  | Atomic "string list list"

datatype op_result = One "Value res" | Many "Value list res"

text \<open>
  A pipeline gives its values in order, or its first failure: an error, or a nil reply, which the
  client takes for one.
\<close>

fun batch_result :: "(string + Value) list \<Rightarrow> Value list res" where
  "batch_result [] = Ok []"
| "batch_result (r # rs) = bind_outcome (answer_result r) (\<lambda>v. map_ok ((#) v) (batch_result rs))"

text \<open>The operation on the machine itself.\<close>

fun direct :: "env \<Rightarrow> 's machine \<Rightarrow> op \<Rightarrow> 's \<Rightarrow> op_result \<times> 's" where
  "direct E step (Single args) s = (case step s args of (r, s1) \<Rightarrow> (One (answer_result r), s1))"
| "direct E step (Batch cmds) s =
    (case run_machine step s cmds of (rs, s1) \<Rightarrow> (Many (batch_result rs), s1))"
| "direct E step (Atomic cmds) s =
    (case run_machine step s cmds of (rs, s1) \<Rightarrow> (Many (Ok (values_of rs)), s1))"

fun direct_all :: "env \<Rightarrow> 's machine \<Rightarrow> op list \<Rightarrow> 's \<Rightarrow> op_result list \<times> 's" where
  "direct_all E step [] s = ([], s)"
| "direct_all E step (op # ops) s =
    (case direct E step op s of (r, s1) \<Rightarrow> case direct_all E step ops s1 of (rs, s2) \<Rightarrow> (r # rs, s2))"

text \<open>The operation through the client.\<close>

fun perform :: "env \<Rightarrow> 't transport \<Rightarrow> op \<Rightarrow> 't Client \<Rightarrow> op_result \<times> 't Client" where
  "perform E N (Single args) cl = (case process_cmd E N args cl of (r, cl1) \<Rightarrow> (One r, cl1))"
| "perform E N (Batch cmds) cl =
    (case pipeline_execute E N (fold pipeline_cmd cmds (client_pipeline cl)) of (r, p) \<Rightarrow> (Many r, pl_client p))"
| "perform E N (Atomic cmds) cl =
    (case multi_exec E N (fold multi_cmd cmds (client_multi cl)) of (r, m) \<Rightarrow> (Many r, mu_client m))"

fun perform_all :: "env \<Rightarrow> 't transport \<Rightarrow> op list \<Rightarrow> 't Client \<Rightarrow> op_result list \<times> 't Client" where
  "perform_all E N [] cl = ([], cl)"
| "perform_all E N (op # ops) cl =
    (case perform E N op cl of (r, cl1) \<Rightarrow> case perform_all E N ops cl1 of (rs, cl2) \<Rightarrow> (r # rs, cl2))"

section \<open>The machine behind the wire\<close>

text \<open>What goes out for an operation.\<close>

fun op_bytes :: "op \<Rightarrow> bytes" where
  "op_bytes (Single args) = resp_command args"
| "op_bytes (Batch cmds) = concat (map resp_command cmds)"
| "op_bytes (Atomic cmds) =
    (if cmds = [] then [] else concat (map resp_command ([''MULTI''] # cmds @ [[''EXEC'']])))"

text \<open>What a peer with this machine sends back for it.\<close>

fun op_reply :: "'s machine \<Rightarrow> 's \<Rightarrow> op \<Rightarrow> bytes" where
  "op_reply step s (Single args) = encode_answer (fst (step s args))"
| "op_reply step s (Batch cmds) = concat (map encode_answer (fst (run_machine step s cmds)))"
| "op_reply step s (Atomic cmds) =
    encode_value (VStatus ''OK'') @ concat (map encode_value (replicate (length cmds) (VStatus ''QUEUED''))) @
    encode_value (VArray (values_of (fst (run_machine step s cmds))))"

text \<open>
  What the theorem covers: replies that fit on the wire; and no failed command inside a transaction,
  since an error among the elements of the reply to EXEC leaves the rest of it unread.
\<close>

fun op_ok :: "env \<Rightarrow> 's machine \<Rightarrow> 's \<Rightarrow> op \<Rightarrow> bool" where
  "op_ok E step s (Single args) = sendable E (fst (step s args))"
| "op_ok E step s (Batch cmds) = (\<forall>r \<in> set (fst (run_machine step s cmds)). sendable E r)"
| "op_ok E step s (Atomic cmds) =
    ((\<forall>r \<in> set (fst (run_machine step s cmds)). \<not> isl r) \<and>
     fits E (VArray (values_of (fst (run_machine step s cmds)))))"

text \<open>
  An operation that reads all its replies: in a pipeline an error or nil ends the reading, and what
  comes after it is left on the connection, so such a pipeline can only come last.
\<close>

fun op_clean :: "env \<Rightarrow> 's machine \<Rightarrow> 's \<Rightarrow> op \<Rightarrow> bool" where
  "op_clean E step s (Batch cmds) = (\<forall>r \<in> set (fst (run_machine step s cmds)). plain E r)"
| "op_clean E step s op = True"

fun all_clean :: "env \<Rightarrow> 's machine \<Rightarrow> 's \<Rightarrow> op list \<Rightarrow> bool" where
  "all_clean E step s [] = True"
| "all_clean E step s (op # ops) =
    (op_clean E step s op \<and> all_clean E step (snd (direct E step op s)) ops)"

text \<open>The peer behaves as the machine for these operations, after the bytes it has received.\<close>

fun implements ::
  "env \<Rightarrow> nat option \<Rightarrow> (bytes \<Rightarrow> bytes \<Rightarrow> (nat \<times> net_event) list) \<Rightarrow> 's machine \<Rightarrow> 's \<Rightarrow> bytes \<Rightarrow> op list \<Rightarrow> bool" where
  "implements E limit f step s sent [] = True"
| "implements E limit f step s sent (op # ops) =
    (op_ok E step s op \<and> (op_clean E step s op \<or> ops = []) \<and>
     (op_bytes op = [] \<or> answers limit f sent (op_bytes op) (op_reply step s op)) \<and>
     implements E limit f step (snd (direct E step op s)) (sent @ op_bytes op) ops)"

section \<open>The refinement\<close>

lemma wire_answer: "sendable E r \<Longrightarrow> wire_reply E (encode_answer r) (answer_result r)"
proof (cases r)
  case (Inl msg)
  moreover assume "sendable E r"
  ultimately show ?thesis using wire_reply_error [of msg E] by (simp add: utf8_lossy_id)
next
  case (Inr v)
  moreover assume "sendable E r"
  ultimately show ?thesis by (simp add: wire_reply_value)
qed

lemma values_of_plain:
  "\<forall>r \<in> set rs. plain E r \<Longrightarrow>
    rs = map Inr (values_of rs) \<and> (\<forall>v \<in> set (values_of rs). fits E v \<and> v \<noteq> VNil)"
  by (induction rs) (auto simp: values_of_def plain_def List.map_filter_simps)

lemma batch_result_values: "\<forall>v \<in> set vs. v \<noteq> VNil \<Longrightarrow> batch_result (map Inr vs) = Ok vs"
proof (induction vs)
  case (Cons v vs)
  then show ?case by (cases v) auto
qed simp

lemma batch_result_failure:
  "\<forall>v \<in> set vs. v \<noteq> VNil \<Longrightarrow> answer_result r = Err e \<Longrightarrow> batch_result (map Inr vs @ r # rs) = Err e"
proof (induction vs)
  case (Cons v vs)
  then show ?case by (cases v) auto
qed simp

text \<open>The replies are all values, or there is a first one that fails.\<close>

lemma batch_cases:
  assumes "\<forall>r \<in> set rs. sendable E r"
  obtains (succeeds) vs where "rs = map Inr vs" "\<forall>v \<in> set vs. fits E v \<and> v \<noteq> VNil" "batch_result rs = Ok vs"
  | (fails) vs r e after where "rs = map Inr vs @ r # after" "\<forall>v \<in> set vs. fits E v \<and> v \<noteq> VNil"
      "sendable E r" "answer_result r = Err e" "batch_result rs = Err e"
proof (cases "\<forall>r \<in> set rs. plain E r")
  case True
  then have v: "rs = map Inr (values_of rs)" "\<forall>v \<in> set (values_of rs). fits E v \<and> v \<noteq> VNil"
    using values_of_plain by blast+
  then have "batch_result rs = Ok (values_of rs)" using batch_result_values [of "values_of rs"] by simp
  then show ?thesis using v succeeds by blast
next
  case False
  then obtain before r after where s: "rs = before @ r # after" "\<not> plain E r" "\<forall>x \<in> set before. plain E x"
    using split_list_first_prop [of rs "\<lambda>x. \<not> plain E x"] by blast
  have v: "before = map Inr (values_of before)" "\<forall>v \<in> set (values_of before). fits E v \<and> v \<noteq> VNil"
    using values_of_plain [OF s(3)] by blast+
  have r: "sendable E r" using assms s(1) by simp
  then obtain e where "answer_result r = Err e" using s(2) by (cases r) (auto simp: plain_def)
  then show ?thesis
    using fails [of "values_of before" r after e] s(1) v r batch_result_failure [of "values_of before" r e after]
    by simp
qed

text \<open>A pipeline on a working connection.\<close>

lemma pipeline_execute_result:
  assumes "pl_cmds p \<noteq> []" "length rs = length (pl_cmds p)" "\<forall>r \<in> set rs. sendable E r"
    and s: "served E (pl_client p) t (concat (map resp_command (pl_cmds p))) (concat (map encode_answer rs))"
  shows "\<exists>p'. pipeline_execute E tcp_net p = (batch_result rs, p') \<and> pl_cmds p' = []"
  using assms(3)
proof (cases rule: batch_cases)
  case (succeeds vs)
  have "served E (pl_client p) t (concat (map resp_command (pl_cmds p))) (concat (map encode_value vs))"
    using s succeeds(1) by (simp add: comp_def)
  then show ?thesis
    using pipeline_execute_ok [OF assms(1) _ wire_replies [OF succeeds(2)]] succeeds assms(2) by auto
next
  case (fails vs r e after)
  have "served E (pl_client p) t (concat (map resp_command (pl_cmds p)))
      (concat (map encode_value vs) @ encode_answer r @ concat (map encode_answer after))"
    using s fails(1) by (simp add: comp_def)
  then show ?thesis
    using pipeline_execute_error [OF _ wire_replies [OF fails(2)], of p t "encode_answer r"] fails assms(2)
      wire_answer [OF fails(3)] by auto
qed

lemma values_of_length: "\<forall>r \<in> set rs. \<not> isl r \<Longrightarrow> length (values_of rs) = length rs"
  by (induction rs) (auto simp: values_of_def List.map_filter_simps split: sum.splits)

lemma run_machine_length: "length (fst (run_machine step s cmds)) = length cmds"
  by (induction cmds arbitrary: s) (auto split: prod.splits, metis fst_conv)

lemma fold_pipeline_cmd [simp]:
  "pl_client (fold pipeline_cmd cmds p) = pl_client p" "pl_cmds (fold pipeline_cmd cmds p) = pl_cmds p @ cmds"
  by (induction cmds arbitrary: p) (simp_all add: pipeline_cmd_def)

lemma fold_multi_cmd [simp]:
  "mu_client (fold multi_cmd cmds m) = mu_client m" "mu_cmds (fold multi_cmd cmds m) = mu_cmds m @ cmds"
  by (induction cmds arbitrary: m) (simp_all add: multi_cmd_def)

text \<open>One operation: the client does what the machine does, and is ready for the next.\<close>

lemma perform_refines:
  assumes E: "itoa_decimal E" and cl: "serving cl t" and ok: "op_ok E step s op" "op_clean E step s op"
    and a: "op_bytes op = [] \<or>
      answers (opt_read_timeout (opts (client_pool cl))) (server t) (outbound t) (op_bytes op) (op_reply step s op)"
  shows "\<exists>cl' t'. perform E tcp_net op cl = (fst (direct E step op s), cl') \<and> serving cl' t' \<and>
    outbound t' = outbound t @ op_bytes op \<and> server t' = server t \<and>
    opts (client_pool cl') = opts (client_pool cl)"
proof (cases op)
  case (Single args)
  obtain r s1 where st: "step s args = (r, s1)" by fastforce
  have "op_bytes op \<noteq> []" by (simp add: Single resp_command_def)
  then have "served E cl t (resp_command args) (encode_answer r)"
    using E cl a st by (simp add: served_def Single)
  from process_cmd_serving [OF this wire_answer] show ?thesis
    using ok st by (auto simp: Single)
next
  case (Batch cmds)
  define p where "p = fold pipeline_cmd cmds (client_pipeline cl)"
  have p: "pl_client p = cl" "pl_cmds p = cmds" by (simp_all add: p_def client_pipeline_def pipeline_new_def)
  obtain rs s1 where st: "run_machine step s cmds = (rs, s1)" by fastforce
  have rs: "rs = map Inr (values_of rs)" "\<forall>v \<in> set (values_of rs). fits E v \<and> v \<noteq> VNil"
    using values_of_plain [of rs E] ok(2) st by (simp_all add: Batch)
  have br: "batch_result rs = Ok (values_of rs)"
    using batch_result_values [of "values_of rs"] rs by metis
  have len: "length cmds = length (values_of rs)"
    using run_machine_length [of step s cmds] rs(1) st by (metis fst_conv length_map)
  show ?thesis
  proof (cases "cmds = []")
    case True
    then show ?thesis
      using cl st p by (auto simp: Batch pipeline_execute_def client_pipeline_def pipeline_new_def values_of_def List.map_filter_simps
          intro!: exI [of _ t])
  next
    case False
    then have "op_bytes op \<noteq> []" using resp_commands_nonempty [OF False] by (simp add: Batch)
    with a have "answers (opt_read_timeout (opts (client_pool cl))) (server t) (outbound t) (op_bytes op) (op_reply step s op)"
      by blast
    moreover have "op_reply step s op = concat (map encode_value (values_of rs))"
      using st arg_cong [OF rs(1), of "\<lambda>x. concat (map encode_answer x)"] by (simp add: Batch comp_def)
    ultimately have "served E (pl_client p) t (concat (map resp_command (pl_cmds p)))
        (concat (map encode_value (values_of rs)))"
      using E cl by (simp add: served_def p Batch)
    from pipeline_execute_ok [OF _ this wire_replies [OF rs(2)]] False len show ?thesis
      unfolding Batch perform.simps p_def [symmetric] by (auto simp: p st br)
  qed
next
  case (Atomic cmds)
  define m where "m = fold multi_cmd cmds (client_multi cl)"
  have m: "mu_client m = cl" "mu_cmds m = cmds" by (simp_all add: m_def client_multi_def multi_new_def)
  obtain rs s1 where st: "run_machine step s cmds = (rs, s1)" by fastforce
  have f: "\<forall>r \<in> set rs. \<not> isl r" "fits E (VArray (values_of rs))" using ok st by (simp_all add: Atomic)
  have len: "length (values_of rs) = length cmds"
    using values_of_length [OF f(1)] run_machine_length [of step s cmds] st by simp
  show ?thesis
  proof (cases "cmds = []")
    case True
    then show ?thesis
      using cl st m by (auto simp: Atomic multi_exec_def client_multi_def multi_new_def values_of_def List.map_filter_simps
          intro!: exI [of _ t])
  next
    case False
    define queued where "queued = replicate (length cmds) (VStatus ''QUEUED'')"
    have "fits E (VStatus ''QUEUED'')"
      using utf8_valid_ascii [of "''QUEUED''"] by (simp add: line_text_def MAX_LINE_LEN_def)
    then have q: "\<forall>v \<in> set queued. fits E v \<and> v \<noteq> VNil" "length queued = length (mu_cmds m)"
      by (auto simp: queued_def m)
    have ok': "wire_reply E (encode_value (VStatus ''OK'')) (Ok (VStatus ''OK''))"
      using wire_reply_value [OF fits_OK] by simp
    have "op_bytes op \<noteq> []"
      using False resp_commands_nonempty [of "[''MULTI''] # cmds @ [[''EXEC'']]"] by (simp add: Atomic)
    with a have "answers (opt_read_timeout (opts (client_pool cl))) (server t) (outbound t) (op_bytes op) (op_reply step s op)"
      by blast
    then have "served E (mu_client m) t (concat (map resp_command ([''MULTI''] # mu_cmds m @ [[''EXEC'']])))
        (encode_value (VStatus ''OK'') @ concat (map encode_value queued) @ encode_value (VArray (values_of rs)))"
      using E cl False st by (simp add: served_def m Atomic queued_def del: encode_value.simps)
    from multi_exec_ok [OF _ this ok' wire_replies [OF q(1)] q(2) wire_reply_value [OF f(2)]] False
    obtain m' t' where x: "multi_exec E tcp_net m = (exec_result E (as_result (VArray (values_of rs))), m')"
      "serving (mu_client m') t'"
      "outbound t' = outbound t @ concat (map resp_command ([''MULTI''] # mu_cmds m @ [[''EXEC'']]))"
      "server t' = server t" "opts (client_pool (mu_client m')) = opts (client_pool (mu_client m))"
      by (auto simp: m)
    have "exec_result E (as_result (VArray (values_of rs))) = Ok (values_of rs)"
      using False len by (cases "values_of rs") (simp_all add: exec_result_def)
    then have "\<exists>m' t'. multi_exec E tcp_net m = (Ok (values_of rs), m') \<and> serving (mu_client m') t' \<and>
      outbound t' = outbound t @ op_bytes op \<and> server t' = server t \<and>
      opts (client_pool (mu_client m')) = opts (client_pool cl)"
      using x False by (intro exI [of _ m'] exI [of _ t']) (simp add: m Atomic)
    then show ?thesis
      unfolding Atomic perform.simps m_def [symmetric] by (auto simp: st Atomic)
  qed
qed

text \<open>The last operation may leave replies unread.\<close>

lemma perform_last:
  assumes E: "itoa_decimal E" and cl: "serving cl t" and ok: "op_ok E step s op"
    and a: "op_bytes op = [] \<or>
      answers (opt_read_timeout (opts (client_pool cl))) (server t) (outbound t) (op_bytes op) (op_reply step s op)"
  shows "\<exists>cl'. perform E tcp_net op cl = (fst (direct E step op s), cl')"
proof (cases "op_clean E step s op")
  case True
  then show ?thesis using perform_refines [OF E cl ok _ a] by blast
next
  case False
  then obtain cmds where B: "op = Batch cmds" by (cases op) auto
  define p where "p = fold pipeline_cmd cmds (client_pipeline cl)"
  have p: "pl_client p = cl" "pl_cmds p = cmds" by (simp_all add: p_def client_pipeline_def pipeline_new_def)
  obtain rs s1 where st: "run_machine step s cmds = (rs, s1)" by fastforce
  have len: "length rs = length (pl_cmds p)" using run_machine_length [of step s cmds] st p by simp
  have ne: "pl_cmds p \<noteq> []" using False st B p by auto
  then have "op_bytes op \<noteq> []" using resp_commands_nonempty p B by simp
  with a have "answers (opt_read_timeout (opts (client_pool cl))) (server t) (outbound t) (op_bytes op) (op_reply step s op)"
    by blast
  then have "served E (pl_client p) t (concat (map resp_command (pl_cmds p))) (concat (map encode_answer rs))"
    using E cl unfolding served_def B p by (simp add: st)
  from pipeline_execute_result [OF ne len _ this] ok show ?thesis
    unfolding B perform.simps p_def [symmetric] by (auto simp: st B)
qed

lemma perform_all_refines:
  assumes "itoa_decimal E" "serving cl t"
    and "implements E (opt_read_timeout (opts (client_pool cl))) (server t) step s (outbound t) ops"
  shows "\<exists>cl'. perform_all E tcp_net ops cl = (fst (direct_all E step ops s), cl') \<and>
    (all_clean E step s ops \<longrightarrow> (\<exists>t'. serving cl' t' \<and> outbound t' = outbound t @ concat (map op_bytes ops)))"
  using assms
proof (induction ops arbitrary: cl t s)
  case Nil
  then show ?case by auto
next
  case (Cons op ops)
  obtain r s1 where d: "direct E step op s = (r, s1)" by fastforce
  have op: "op_ok E step s op" "op_bytes op = [] \<or>
      answers (opt_read_timeout (opts (client_pool cl))) (server t) (outbound t) (op_bytes op) (op_reply step s op)"
    using Cons.prems(3) by auto
  show ?case
  proof (cases "op_clean E step s op")
    case True
    obtain cl1 t1 where 1: "perform E tcp_net op cl = (r, cl1)" "serving cl1 t1"
      "outbound t1 = outbound t @ op_bytes op" "server t1 = server t"
      "opts (client_pool cl1) = opts (client_pool cl)"
      using perform_refines [OF Cons.prems(1,2) op(1) True op(2)] d by auto
    have "implements E (opt_read_timeout (opts (client_pool cl1))) (server t1) step s1 (outbound t1) ops"
      using Cons.prems(3) d 1(3-5) by simp
    from Cons.IH [OF Cons.prems(1) 1(2) this] show ?thesis
      using d 1(1,3) by (auto split: prod.splits)
  next
    case False
    then have "ops = []" using Cons.prems(3) by auto
    then show ?thesis
      using False perform_last [OF Cons.prems(1,2) op] d by auto
  qed
qed

end
