(* ===== verification/Concurrent_Client.thy ===== *)
theory Concurrent_Client imports Pool_Owners Remote begin

text \<open>
  Many commands at once: the tasks of \<open>Pool_Concurrent\<close>, where whoever has a guard runs commands on its
  connection as \<open>process_cmd\<close> does, cut at its await points: the write of the command is one step, the
  reading of its reply another, and between them every other task may move.
\<close>

section \<open>Runs with a log\<close>

text \<open>An entry of the log: the number of the connection, the command, what the caller got.\<close>

type_synonym entry = "nat \<times> string list \<times> Value res"

definition on_conn :: "nat \<Rightarrow> entry list \<Rightarrow> entry list" where
  "on_conn n log = filter (\<lambda>(k, _, _). k = n) log"

definition commands_on :: "nat \<Rightarrow> entry list \<Rightarrow> string list list" where
  "commands_on n log = map (\<lambda>(_, args, _). args) (on_conn n log)"

definition results_on :: "nat \<Rightarrow> entry list \<Rightarrow> Value res list" where
  "results_on n log = map (\<lambda>(_, _, r). r) (on_conn n log)"

text \<open>The connections are told apart by their peers.\<close>

type_synonym peer = "bytes \<Rightarrow> bytes \<Rightarrow> (nat \<times> net_event) list"

text \<open>The commands that have been written and whose replies are still awaited, by connection.\<close>

type_synonym pending = "nat \<rightharpoonup> string list"

text \<open>
  Nobody gives up a command while its reply is awaited: the guard stays. (What happens otherwise is
  the subject of another property: the connection goes back to the pool with the reply on its way.)
\<close>

definition patient :: "(peer \<Rightarrow> nat) \<Rightarrow> pending \<Rightarrow> tcp sys \<Rightarrow> tcp sys \<Rightarrow> bool" where
  "patient nid busy s s' \<longleftrightarrow>
    (\<forall>i < length (tasks s). \<forall>c. tasks s ! i = Using c \<longrightarrow> busy (nid (server (stream c))) \<noteq> None \<longrightarrow>
      tasks s' ! i = Using c)"

inductive session :: "env \<Rightarrow> (peer \<Rightarrow> nat) \<Rightarrow> tcp sys \<Rightarrow> tcp sys \<Rightarrow> entry list \<Rightarrow> pending \<Rightarrow> bool"
  for E nid s0 where
  opens: "session E nid s0 s0 [] Map.empty"
| pool_moves: "session E nid s0 s log busy \<Longrightarrow> pstep tcp_net s s' \<Longrightarrow> same_users s s' \<Longrightarrow>
    patient nid busy s s' \<Longrightarrow> session E nid s0 s' log busy"
| send: "session E nid s0 s log busy \<Longrightarrow> i < length (tasks s) \<Longrightarrow> tasks s ! i = Using c \<Longrightarrow>
    busy (nid (server (stream c))) = None \<Longrightarrow> conn_write_all tcp_net (append_args E [] args) c = (Ok (), c') \<Longrightarrow>
    session E nid s0 (s\<lparr>tasks := (tasks s)[i := Using c']\<rparr>) log (busy(nid (server (stream c)) \<mapsto> args))"
| send_fails: "session E nid s0 s log busy \<Longrightarrow> i < length (tasks s) \<Longrightarrow> tasks s ! i = Using c \<Longrightarrow>
    busy (nid (server (stream c))) = None \<Longrightarrow> conn_write_all tcp_net (append_args E [] args) c = (Err e, c') \<Longrightarrow>
    session E nid s0 (s\<lparr>tasks := (tasks s)[i := Using c']\<rparr>) (log @ [(nid (server (stream c)), args, Err e)]) busy"
| receive: "session E nid s0 s log busy \<Longrightarrow> i < length (tasks s) \<Longrightarrow> tasks s ! i = Using c \<Longrightarrow>
    busy (nid (server (stream c))) = Some args \<Longrightarrow> conn_parse_reply E tcp_net c = (r, c') \<Longrightarrow>
    session E nid s0 (s\<lparr>tasks := (tasks s)[i := Using c']\<rparr>) (log @ [(nid (server (stream c)), args, r)])
      (busy(nid (server (stream c)) := None))"

text \<open>
  The peers: every connection that is dialled is fresh, has its own number, and its peer runs the
  machine from the state \<open>q0\<close> on what it receives, answering in time.
\<close>

definition state_after :: "'q machine \<Rightarrow> 'q \<Rightarrow> string list list \<Rightarrow> 'q" where
  "state_after step q cmds = snd (run_machine step q cmds)"

definition runs_machine :: "env \<Rightarrow> nat option \<Rightarrow> 'q machine \<Rightarrow> 'q \<Rightarrow> peer \<Rightarrow> bool" where
  "runs_machine E limit step q0 f \<longleftrightarrow> (\<forall>cmds args. let a = fst (step (state_after step q0 cmds) args) in
    sendable E a \<and> answers limit f (concat (map resp_command cmds)) (resp_command args) (encode_answer a))"

definition numbered_servers ::
  "env \<Rightarrow> (nat \<Rightarrow> tcp res) \<Rightarrow> nat option \<Rightarrow> (peer \<Rightarrow> nat) \<Rightarrow> 'q machine \<Rightarrow> 'q \<Rightarrow> bool" where
  "numbered_servers E d limit nid step q0 \<longleftrightarrow>
    (\<forall>n t. d n = Ok t \<longrightarrow>
      ready t \<and> outbound t = [] \<and> nid (server t) = n \<and> runs_machine E limit step q0 (server t))"

section \<open>Where the connections are\<close>

fun task_conns :: "'t task \<Rightarrow> 't connection set" where
  "task_conns (GetInit c) = {c}"
| "task_conns (Using c) = {c}"
| "task_conns (PutStart c) = {c}"
| "task_conns (PutWait pc) = {pc_conn pc}"
| "task_conns (PutPush pc) = {pc_conn pc}"
| "task_conns _ = {}"

definition all_conns :: "'t sys \<Rightarrow> 't connection set" where
  "all_conns s = pc_conn ` set (idle (shared s)) \<union> \<Union>(task_conns ` set (tasks s))"

lemma all_conns_task: "i < length (tasks s) \<Longrightarrow> c \<in> task_conns (tasks s ! i) \<Longrightarrow> c \<in> all_conns s"
  unfolding all_conns_def by (auto intro!: bexI [of _ "tasks s ! i"])

lemma tstep_conns:
  assumes "tstep N i p l t p' l' t' new" "init_conn (opts p) = None"
    and "\<forall>c \<in> pc_conn ` set (idle p) \<union> task_conns t. G c"
    and "\<And>c. G c \<Longrightarrow> G (prepare (opts p) c)"
    and "\<And>u. dial p (dialled p) = Ok u \<Longrightarrow> G (prepare (opts p) (connection_new u))"
  shows "\<forall>c \<in> pc_conn ` set (idle p') \<union> task_conns t' \<union> \<Union>(task_conns ` set new). G c"
  using assms by (induction rule: tstep.induct) (auto simp: pop_idle_Some)

lemma conns_list_update: "\<Union>(task_conns ` set (ts[i := t])) \<subseteq> task_conns t \<union> \<Union>(task_conns ` set ts)"
  using set_update_subset_insert [of ts i t] by blast

text \<open>A step of the pool that leaves the users alone.\<close>

lemma pstep_conns:
  assumes "pstep N s s'" "same_users s s'" "init_conn (opts (shared s)) = None"
    and "\<forall>c \<in> all_conns s. G c"
    and "\<And>c. G c \<Longrightarrow> G (prepare (opts (shared s)) c)"
    and "\<And>u. dial (shared s) (dialled (shared s)) = Ok u \<Longrightarrow> G (prepare (opts (shared s)) (connection_new u))"
  shows "\<forall>c \<in> all_conns s'. G c"
  using assms
proof (induction rule: pstep.induct)
  case (run i s p' l' t' new)
  have "\<forall>c \<in> pc_conn ` set (idle (shared s)) \<union> task_conns (tasks s ! i). G c"
    using run(5) all_conns_task [OF run(1)] by (auto simp: all_conns_def)
  from tstep_conns [OF run(2,4) this run(6,7)] show ?case
    using run(5) conns_list_update [of "tasks s" i t'] unfolding all_conns_def by fastforce
next
  case (work i s c c')
  then have "c' = c" by (auto simp: same_users_def)
  then show ?case using work list_update_id [of "tasks s" i] by simp
next
  case (cancel i s t')
  then have "task_conns t' = {}" by (cases "tasks s ! i") auto
  then show ?case
    using cancel(5) conns_list_update [of "tasks s" i t'] unfolding all_conns_def by fastforce
qed (auto simp: all_conns_def)

section \<open>Every connection is in step with its peer\<close>

text \<open>
  A connection between commands has sent the commands the log has for it, and nothing is on its way
  back. While a reply is awaited, the command has been sent too, and exactly its reply is on the way.
\<close>

definition resting :: "entry list \<Rightarrow> nat \<Rightarrow> tcp \<Rightarrow> bool" where
  "resting log k t \<longleftrightarrow> ready t \<and> outbound t = concat (map resp_command (commands_on k log))"

definition awaiting ::
  "env \<Rightarrow> nat option \<Rightarrow> 'q machine \<Rightarrow> 'q \<Rightarrow> entry list \<Rightarrow> nat \<Rightarrow> string list \<Rightarrow> tcp \<Rightarrow> bool" where
  "awaiting E limit step q0 log k args t \<longleftrightarrow>
    (let a = fst (step (state_after step q0 (commands_on k log)) args) in
     sendable E a \<and> steady limit (outbound t) (server t) t \<and> deadline t = None \<and>
     tcp_backlog t = encode_answer a \<and>
     outbound t = concat (map resp_command (commands_on k log @ [args])))"

definition in_step ::
  "env \<Rightarrow> (nat \<Rightarrow> tcp res) \<Rightarrow> nat option \<Rightarrow> (peer \<Rightarrow> nat) \<Rightarrow> 'q machine \<Rightarrow> 'q \<Rightarrow> entry list \<Rightarrow> pending \<Rightarrow>
    tcp connection \<Rightarrow> bool" where
  "in_step E d limit nid step q0 log busy c \<longleftrightarrow>
    read_timeout c = limit \<and> (\<exists>n t. d n = Ok t \<and> server (stream c) = server t) \<and>
    (let k = nid (server (stream c)) in
     case busy k of
       None \<Rightarrow> resting log k (stream c)
     | Some args \<Rightarrow> awaiting E limit step q0 log k args (stream c))"

definition session_inv ::
  "env \<Rightarrow> (nat \<Rightarrow> tcp res) \<Rightarrow> nat option \<Rightarrow> (peer \<Rightarrow> nat) \<Rightarrow> 'q machine \<Rightarrow> 'q \<Rightarrow> tcp sys \<Rightarrow> entry list \<Rightarrow> pending \<Rightarrow>
    bool" where
  "session_inv E d limit nid step q0 s log busy \<longleftrightarrow>
    (\<forall>c \<in> all_conns s. in_step E d limit nid step q0 log busy c) \<and>
    (\<forall>e \<in> set log. fst e < dialled (shared s)) \<and> (\<forall>k \<in> dom busy. k < dialled (shared s)) \<and>
    (\<forall>n. results_on n log = map answer_result (fst (run_machine step q0 (commands_on n log))))"

lemma on_conn_snoc:
  "on_conn n (log @ [(k, args, r)]) = on_conn n log @ (if k = n then [(k, args, r)] else [])"
  by (simp add: on_conn_def)

lemma commands_on_snoc:
  "commands_on n (log @ [(k, args, r)]) = commands_on n log @ (if k = n then [args] else [])"
  by (simp add: commands_on_def on_conn_snoc)

lemma results_on_snoc:
  "results_on n (log @ [(k, args, r)]) = results_on n log @ (if k = n then [r] else [])"
  by (simp add: results_on_def on_conn_snoc)

lemma run_machine_snoc:
  "fst (run_machine step q (cmds @ [args])) =
    fst (run_machine step q cmds) @ [fst (step (state_after step q cmds) args)]"
proof (induction cmds arbitrary: q)
  case Nil
  then show ?case by (simp add: state_after_def split: prod.split)
next
  case (Cons a cmds)
  then show ?case by (simp add: state_after_def case_prod_beta)
qed

lemma tstep_dialled: "tstep N i p l t p' l' t' new \<Longrightarrow> dialled p \<le> dialled p'"
  by (induction rule: tstep.induct) auto

lemma pstep_dialled: "pstep N s s' \<Longrightarrow> dialled (shared s) \<le> dialled (shared s')"
  by (induction rule: pstep.induct) (auto dest: tstep_dialled)

lemma in_step_prepare:
  "in_step E d (opt_read_timeout o') nid step q0 log busy c \<Longrightarrow>
    in_step E d (opt_read_timeout o') nid step q0 log busy (prepare o' c)"
  by (simp add: in_step_def Let_def prepare_simps split: option.splits)

lemma no_commands_yet: "\<forall>e \<in> set log. fst e < n \<Longrightarrow> commands_on n log = []"
  by (auto simp: commands_on_def on_conn_def filter_empty_conv)

text \<open>What the peer does when a command arrives at a connection between commands.\<close>

lemma peer_answers:
  assumes "numbered_servers E d limit nid step q0" "in_step E d limit nid step q0 log busy c"
  shows "sendable E (fst (step (state_after step q0 cmds) args)) \<and>
    answers limit (server (stream c)) (concat (map resp_command cmds)) (resp_command args)
      (encode_answer (fst (step (state_after step q0 cmds) args)))"
proof -
  obtain n t where "d n = Ok t" "server (stream c) = server t"
    using assms(2) unfolding in_step_def by blast
  then have "runs_machine E limit step q0 (server (stream c))"
    using assms(1) by (simp add: numbered_servers_def)
  then show ?thesis by (simp add: runs_machine_def Let_def)
qed

lemma send_in_step:
  assumes "itoa_decimal E" "numbered_servers E d limit nid step q0"
    and c: "in_step E d limit nid step q0 log busy c" "busy (nid (server (stream c))) = None"
    and w: "conn_write_all tcp_net (append_args E [] args) c = (w, c')"
  shows "w = Ok () \<and> server (stream c') = server (stream c) \<and>
    in_step E d limit nid step q0 log (busy(nid (server (stream c)) \<mapsto> args)) c'"
proof -
  define k where "k = nid (server (stream c))"
  define a where "a = fst (step (state_after step q0 (commands_on k log)) args)"
  have r: "ready (stream c)" "outbound (stream c) = concat (map resp_command (commands_on k log))"
    "read_timeout c = limit"
    using c by (simp_all add: in_step_def k_def Let_def resting_def)
  have p: "sendable E a" "answers (read_timeout c) (server (stream c)) (outbound (stream c)) (resp_command args) (encode_answer a)"
    using peer_answers [OF assms(2) c(1), of "commands_on k log" args] r by (simp_all add: a_def)
  have ne: "resp_command args \<noteq> []" by (simp add: resp_command_def)
  note W = conn_write_answers [OF r(1) ne p(2)]
  have c': "w = Ok ()" "c' = c\<lparr>stream := written (resp_command args) (stream c)\<rparr>"
    using w W(1) assms(1) by (simp_all add: append_args_command)
  have s: "server (stream c') = server (stream c)" "outbound (stream c') = outbound (stream c) @ resp_command args"
    by (simp_all add: c'(2) written_def)
  have "awaiting E limit step q0 log k args (stream c')"
    using W(2-4) p(1) r s c'(2) by (simp add: awaiting_def Let_def a_def)
  then show ?thesis
    using c c'(1) s(1) by (auto simp: in_step_def Let_def k_def c'(2))
qed

lemma receive_in_step:
  assumes c: "in_step E d limit nid step q0 log busy c" "busy (nid (server (stream c))) = Some args"
    and p: "conn_parse_reply E tcp_net c = (r, c')"
  shows "r = answer_result (fst (step (state_after step q0 (commands_on (nid (server (stream c))) log)) args)) \<and>
    server (stream c') = server (stream c) \<and>
    in_step E d limit nid step q0 (log @ [(nid (server (stream c)), args, r)])
      (busy(nid (server (stream c)) := None)) c'"
proof -
  define k where "k = nid (server (stream c))"
  define a where "a = fst (step (state_after step q0 (commands_on k log)) args)"
  have l: "read_timeout c = limit" using c by (simp add: in_step_def)
  have "awaiting E limit step q0 log k args (stream c)" using c by (simp add: in_step_def Let_def k_def)
  note A = this [unfolded awaiting_def Let_def, folded a_def l]
  have w: "sendable E a" "steady (read_timeout c) (outbound (stream c)) (server (stream c)) (stream c)"
    "deadline (stream c) = None" "tcp_backlog (stream c) = encode_answer a @ []"
    "outbound (stream c) = concat (map resp_command (commands_on k log @ [args]))"
    using A unfolding append_Nil2 by blast+
  obtain u where u: "conn_parse_reply E tcp_net c = (answer_result a, c\<lparr>stream := u\<rparr>)"
    "steady (read_timeout c) (outbound (stream c)) (server (stream c)) u" "deadline u = None" "tcp_backlog u = []"
    using conn_parse_steady [OF w(2-4) wire_answer [OF w(1)]] by blast
  have c': "r = answer_result a" "c' = c\<lparr>stream := u\<rparr>" using p u(1) by auto
  have "ready u" by (rule drained_ready [OF u(2-4)])
  moreover have "server u = server (stream c)" "outbound u = outbound (stream c)" using u(2) by (simp_all add: steady_def)
  ultimately show ?thesis
    using c(1) c' w(5) by (auto simp: in_step_def Let_def resting_def commands_on_snoc a_def k_def)
qed

text \<open>The other connections do not notice.\<close>

lemma states_elsewhere:
  "k \<noteq> k' \<Longrightarrow> resting (log @ [(k, args, r)]) k' = resting log k'"
  "k \<noteq> k' \<Longrightarrow> awaiting E limit step q0 (log @ [(k, args, r)]) k' = awaiting E limit step q0 log k'"
  by (simp_all add: fun_eq_iff resting_def awaiting_def commands_on_snoc)

lemma in_step_elsewhere:
  assumes "in_step E d limit nid step q0 log busy c" "nid (server (stream c)) \<noteq> k"
  shows "in_step E d limit nid step q0 log (busy(k := b)) c"
    and "in_step E d limit nid step q0 (log @ [(k, args, r)]) (busy(k := b)) c"
  using assms by (simp_all add: in_step_def Let_def states_elsewhere not_sym split: option.splits)

section \<open>The invariant\<close>

lemma session_inv_pool:
  assumes inv: "session_inv E d (opt_read_timeout o') nid step q0 s log busy"
    and env: "numbered_servers E d (opt_read_timeout o') nid step q0" "init_conn o' = None"
    and s: "dial (shared s) = d" "opts (shared s) = o'"
    and st: "pstep tcp_net s s'" "same_users s s'"
  shows "session_inv E d (opt_read_timeout o') nid step q0 s' log busy"
proof -
  define G where "G = in_step E d (opt_read_timeout o') nid step q0 log busy"
  have new: "G (prepare o' (connection_new u))" if u: "d (dialled (shared s)) = Ok u" for u
  proof -
    have "ready u" "outbound u = []" "nid (server u) = dialled (shared s)"
      using env(1) u unfolding numbered_servers_def by blast+
    moreover have "commands_on (dialled (shared s)) log = []"
      using inv by (intro no_commands_yet) (simp add: session_inv_def)
    moreover have "busy (dialled (shared s)) = None" using inv unfolding session_inv_def by fastforce
    moreover have "\<exists>n t. d n = Ok t \<and> server u = server t" using u by blast
    ultimately show ?thesis by (simp add: G_def in_step_def Let_def resting_def prepare_simps)
  qed
  have "\<forall>c \<in> all_conns s'. G c"
  proof (rule pstep_conns [OF st])
    show "\<forall>c \<in> all_conns s. G c" using inv by (simp add: session_inv_def G_def)
    show "G c \<Longrightarrow> G (prepare (opts (shared s)) c)" for c
      using in_step_prepare [of E d o'] s(2) by (simp add: G_def)
  qed (use env(2) s new in auto)
  moreover have "\<forall>e \<in> set log. fst e < dialled (shared s')" "\<forall>k \<in> dom busy. k < dialled (shared s')"
    using inv pstep_dialled [OF st(1)] unfolding session_inv_def by (meson less_le_trans)+
  ultimately show ?thesis using inv by (simp add: session_inv_def G_def)
qed

lemma others_elsewhere:
  assumes "owned_once (\<lambda>t. nid (server t)) s" "i < length (tasks s)" "tasks s ! i = Using c"
    and "x \<in> all_conns (s\<lparr>tasks := (tasks s)[i := Using c']\<rparr>)"
  shows "x = c' \<or> x \<in> all_conns s \<and> nid (server (stream x)) \<noteq> nid (server (stream c))"
proof -
  let ?id = "\<lambda>t. nid (server t)"
  have i: "nid (server (stream c)) \<in># task_ids ?id (tasks s ! i)" using assms(3) by simp
  consider pc where "pc \<in> set (idle (shared s))" "x = pc_conn pc"
    | j where "j < length (tasks s)" "x \<in> task_conns ((tasks s)[i := Using c'] ! j)"
    using assms(4) by (auto simp: all_conns_def in_set_conv_nth)
  then show ?thesis
  proof cases
    case 1
    then have "nid (server (stream x)) \<in># idle_ids ?id (shared s)" by (auto simp: idle_ids_def)
    then show ?thesis using owned_once_idle [OF assms(1,2) i] 1 by (auto simp: all_conns_def)
  next
    case 2
    show ?thesis
    proof (cases "j = i")
      case False
      then have x: "x \<in> task_conns (tasks s ! j)" using 2 by simp
      then have "nid (server (stream x)) \<in># task_ids ?id (tasks s ! j)" by (cases "tasks s ! j") auto
      then show ?thesis
        using owned_once_tasks [OF assms(1,2) 2(1) _ i] False all_conns_task [OF 2(1) x] by auto
    qed (use 2 assms(2) in simp)
  qed
qed

text \<open>A step of a user, who changes its own connection only.\<close>

lemma session_inv_user:
  assumes inv: "session_inv E d limit nid step q0 s log busy" and own: "owned_once (\<lambda>t. nid (server t)) s"
    and st: "i < length (tasks s)" "tasks s ! i = Using c"
  defines "k \<equiv> nid (server (stream c))"
  shows "in_step E d limit nid step q0 log (busy(k := b)) c' \<Longrightarrow>
      session_inv E d limit nid step q0 (s\<lparr>tasks := (tasks s)[i := Using c']\<rparr>) log (busy(k := b))"
    and "in_step E d limit nid step q0 (log @ [(k, args, r)]) (busy(k := b)) c' \<Longrightarrow>
      r = answer_result (fst (step (state_after step q0 (commands_on k log)) args)) \<Longrightarrow>
      session_inv E d limit nid step q0 (s\<lparr>tasks := (tasks s)[i := Using c']\<rparr>) (log @ [(k, args, r)]) (busy(k := b))"
proof -
  let ?s = "s\<lparr>tasks := (tasks s)[i := Using c']\<rparr>"
  have old: "in_step E d limit nid step q0 log busy x" if "x \<in> all_conns s" for x
    using inv that by (simp add: session_inv_def)
  have k: "k < dialled (shared s)"
  proof -
    have "k \<in># all_ids (\<lambda>t. nid (server t)) s"
      using st by (auto simp: all_ids_def set_mset_sum_list k_def intro!: bexI [of _ "Using c"])
        (metis nth_mem)
    then show ?thesis using own unfolding owned_once_def by (metis count_greater_zero_iff leD)
  qed
  have D: "\<forall>j \<in> dom (busy(k := b)). j < dialled (shared ?s)"
    using inv k by (auto simp: session_inv_def split: if_splits)
  {
    assume c': "in_step E d limit nid step q0 log (busy(k := b)) c'"
    have "\<forall>x \<in> all_conns ?s. in_step E d limit nid step q0 log (busy(k := b)) x"
      using others_elsewhere [OF own st] in_step_elsewhere(1) [OF old] c' unfolding k_def by blast
    then show "session_inv E d limit nid step q0 ?s log (busy(k := b))"
      using inv D by (simp add: session_inv_def)
  next
    assume c': "in_step E d limit nid step q0 (log @ [(k, args, r)]) (busy(k := b)) c'"
      and r: "r = answer_result (fst (step (state_after step q0 (commands_on k log)) args))"
    have "\<forall>x \<in> all_conns ?s. in_step E d limit nid step q0 (log @ [(k, args, r)]) (busy(k := b)) x"
      using others_elsewhere [OF own st] in_step_elsewhere(2) [OF old] c' unfolding k_def by blast
    moreover have "\<forall>e \<in> set (log @ [(k, args, r)]). fst e < dialled (shared ?s)"
      using inv k by (auto simp: session_inv_def)
    moreover have "results_on n (log @ [(k, args, r)]) =
        map answer_result (fst (run_machine step q0 (commands_on n (log @ [(k, args, r)]))))" for n
      using inv r by (simp add: session_inv_def commands_on_snoc results_on_snoc run_machine_snoc)
    ultimately show "session_inv E d limit nid step q0 ?s (log @ [(k, args, r)]) (busy(k := b))"
      using D by (simp add: session_inv_def)
  }
qed

lemma user_honest:
  assumes "honest tcp_net (\<lambda>t. nid (server t)) s0 s" "i < length (tasks s)" "tasks s ! i = Using c"
    and "server (stream c') = server (stream c)"
  shows "honest tcp_net (\<lambda>t. nid (server t)) s0 (s\<lparr>tasks := (tasks s)[i := Using c']\<rparr>)"
  by (rule honest.moves [OF assms(1) pstep.work [OF assms(2,3)]])
    (use assms(2-4) in \<open>auto simp: same_connections_def nth_list_update\<close>)

lemma session_holds:
  assumes "session E nid (sys_new d o') s log busy" "itoa_decimal E" "init_conn o' = None"
    and env: "numbered_servers E d (opt_read_timeout o') nid step q0"
  shows "honest tcp_net (\<lambda>t. nid (server t)) (sys_new d o') s \<and>
    session_inv E d (opt_read_timeout o') nid step q0 s log busy"
proof -
  have num: "numbers (\<lambda>t. nid (server t)) d o'" using env assms(3) by (auto simp: numbers_def numbered_servers_def)
  have user: "in_step E d (opt_read_timeout o') nid step q0 log busy c"
    if "session_inv E d (opt_read_timeout o') nid step q0 s log busy" "i < length (tasks s)" "tasks s ! i = Using c"
    for s log busy i c
    using that(1) all_conns_task [OF that(2), of c] that(3) by (simp add: session_inv_def)
  show ?thesis
    using assms(1)
  proof (induction rule: session.induct)
    case opens
    then show ?case
      by (simp add: honest.begins session_inv_def all_conns_def sys_new_def pool_new_def results_on_def
          commands_on_def on_conn_def)
  next
    case (pool_moves s log busy s')
    have "dial (shared s) = d" "opts (shared s) = o'"
      using owned_once_honest [OF _ num] pool_moves(5) by blast+
    then show ?case
      using session_inv_pool [OF _ env assms(3) _ _ pool_moves(2,3)] pool_moves(5)
        honest.moves [OF _ pool_moves(2) same_users_connections [OF pool_moves(3)]] by blast
  next
    case (send s log busy i c args c')
    have own: "owned_once (\<lambda>t. nid (server t)) s" using owned_once_honest [OF _ num] send(6) by blast
    have st: "in_step E d (opt_read_timeout o') nid step q0 log busy c"
      using user [OF _ send(2,3)] send(6) by blast
    note X = send_in_step [OF assms(2) env st send(4,5)]
    have inv: "session_inv E d (opt_read_timeout o') nid step q0 s log busy"
      and hon: "honest tcp_net (\<lambda>t. nid (server t)) (sys_new d o') s"
      using send(6) by simp_all
    show ?case
      using session_inv_user(1) [OF inv own send(2,3)] user_honest [OF hon send(2,3)] X by blast
  next
    case (send_fails s log busy i c args e c')
    have "in_step E d (opt_read_timeout o') nid step q0 log busy c"
      using user [OF _ send_fails(2,3)] send_fails(6) by blast
    from send_in_step [OF assms(2) env this send_fails(4,5)] show ?case by simp
  next
    case (receive s log busy i c args r c')
    have own: "owned_once (\<lambda>t. nid (server t)) s" using owned_once_honest [OF _ num] receive(6) by blast
    have st: "in_step E d (opt_read_timeout o') nid step q0 log busy c"
      using user [OF _ receive(2,3)] receive(6) by blast
    note X = receive_in_step [OF st receive(4,5)]
    have inv: "session_inv E d (opt_read_timeout o') nid step q0 s log busy"
      and hon: "honest tcp_net (\<lambda>t. nid (server t)) (sys_new d o') s"
      using receive(6) by simp_all
    show ?case
      using session_inv_user(2) [OF inv own receive(2,3)] user_honest [OF hon receive(2,3)] X by blast
  qed
qed

text \<open>A user can always write its next command, and the reply to it can always be read.\<close>

lemma session_send:
  assumes "session E nid (sys_new d o') s log busy" "itoa_decimal E" "init_conn o' = None"
    and env: "numbered_servers E d (opt_read_timeout o') nid step q0"
    and st: "i < length (tasks s)" "tasks s ! i = Using c" "nid (server (stream c)) = k" "busy k = None"
  shows "\<exists>c'. nid (server (stream c')) = k \<and>
    session E nid (sys_new d o') (s\<lparr>tasks := (tasks s)[i := Using c']\<rparr>) log (busy(k \<mapsto> args))"
proof -
  obtain w c' where w: "conn_write_all tcp_net (append_args E [] args) c = (w, c')" by fastforce
  have "in_step E d (opt_read_timeout o') nid step q0 log busy c"
    using session_holds [OF assms(1-4)] all_conns_task [OF st(1), of c] st(2) by (simp add: session_inv_def)
  from send_in_step [OF assms(2) env this _ w] st(3,4)
  have "w = Ok ()" "server (stream c') = server (stream c)" by simp_all
  then show ?thesis
    using session.send [OF assms(1) st(1,2), of args c'] w st(3,4) by (intro exI [of _ c']) simp
qed

lemma session_receive:
  assumes "session E nid (sys_new d o') s log busy" "itoa_decimal E" "init_conn o' = None"
    and env: "numbered_servers E d (opt_read_timeout o') nid step q0"
    and st: "i < length (tasks s)" "tasks s ! i = Using c" "nid (server (stream c)) = k" "busy k = Some args"
  shows "\<exists>r c'. nid (server (stream c')) = k \<and>
    session E nid (sys_new d o') (s\<lparr>tasks := (tasks s)[i := Using c']\<rparr>) (log @ [(k, args, r)]) (busy(k := None))"
proof -
  obtain r c' where p: "conn_parse_reply E tcp_net c = (r, c')" by fastforce
  have "in_step E d (opt_read_timeout o') nid step q0 log busy c"
    using session_holds [OF assms(1-4)] all_conns_task [OF st(1), of c] st(2) by (simp add: session_inv_def)
  from receive_in_step [OF this _ p] st(3,4)
  have "server (stream c') = server (stream c)" by simp
  then show ?thesis
    using session.receive [OF assms(1) st(1,2), of args r c'] p st(3,4) by (intro exI [of _ r] exI [of _ c']) simp
qed

end
