(* ===== verification/PubSub.thy ===== *)
theory PubSub imports Client begin

text \<open>
  \<open>src/pubsub.rs\<close>: a subscriber keeps a connection of its own, taken out of the pool at the first
  subscription, writes its commands to it without reading a reply, and reads the messages one by one.
\<close>

datatype PubSubMessage =
    Subscription (kind: string) (channel: string) (count: int)
  | Message (channel: string) (payload: string)
  | PMessage (pattern: string) (channel: string) (payload: string)

record 't PubSub =
  ps_client :: "'t Client"
  ps_conn :: "'t connection option"

definition pubsub_new :: "'t Client \<Rightarrow> 't PubSub" where
  "pubsub_new cl = \<lparr>ps_client = cl, ps_conn = None\<rparr>"

definition client_pubsub :: "'t Client \<Rightarrow> 't PubSub" where
  "client_pubsub cl = pubsub_new cl"

definition ensure_conn :: "'t PubSub \<Rightarrow> unit res \<times> 't PubSub" where
  "ensure_conn s =
    (if ps_conn s = None then
       (case pool_get (client_pool (ps_client s)) of
          (r, p) \<Rightarrow>
            and_then (r, s\<lparr>ps_client := (ps_client s)\<lparr>client_pool := p\<rparr>\<rparr>) (\<lambda>c s.
              case guard_remove c (client_pool (ps_client s)) of
                (conn, p) \<Rightarrow>
                  (Ok (), s\<lparr>ps_client := (ps_client s)\<lparr>client_pool := p\<rparr>, ps_conn := Some conn\<rparr>)))
     else (Ok (), s))"

definition send_sub_cmd ::
  "env \<Rightarrow> 't transport \<Rightarrow> string \<Rightarrow> string list \<Rightarrow> 't PubSub \<Rightarrow> unit res \<times> 't PubSub" where
  "send_sub_cmd E N cmd items s =
    and_then (ensure_conn s) (\<lambda>_ s.
      case ps_conn s of
        None \<Rightarrow> (Panic, s)
      | Some c \<Rightarrow>
          (case conn_write_all N (append_args E [] (cmd # items)) c of
             (r, c) \<Rightarrow> (r, s\<lparr>ps_conn := Some c\<rparr>)))"

definition subscribe :: "env \<Rightarrow> 't transport \<Rightarrow> string list \<Rightarrow> 't PubSub \<Rightarrow> unit res \<times> 't PubSub" where
  "subscribe E N channels = send_sub_cmd E N ''SUBSCRIBE'' channels"

definition psubscribe :: "env \<Rightarrow> 't transport \<Rightarrow> string list \<Rightarrow> 't PubSub \<Rightarrow> unit res \<times> 't PubSub" where
  "psubscribe E N patterns = send_sub_cmd E N ''PSUBSCRIBE'' patterns"

definition unsubscribe :: "env \<Rightarrow> 't transport \<Rightarrow> string list \<Rightarrow> 't PubSub \<Rightarrow> unit res \<times> 't PubSub" where
  "unsubscribe E N channels = send_sub_cmd E N ''UNSUBSCRIBE'' channels"

definition punsubscribe :: "env \<Rightarrow> 't transport \<Rightarrow> string list \<Rightarrow> 't PubSub \<Rightarrow> unit res \<times> 't PubSub" where
  "punsubscribe E N patterns = send_sub_cmd E N ''PUNSUBSCRIBE'' patterns"

section \<open>Messages\<close>

definition str_or_empty :: "Value \<Rightarrow> string" where
  "str_or_empty v = (case value_str v of Some s \<Rightarrow> s | None \<Rightarrow> [])"

definition int_or_zero :: "Value \<Rightarrow> int" where
  "int_or_zero v = (case v of VInt i \<Rightarrow> i | _ \<Rightarrow> 0)"

definition parse_message :: "Value \<Rightarrow> PubSubMessage res" where
  "parse_message v =
    (case v of
       VArray arr \<Rightarrow>
         if length arr < 3 then Err (from_str ''expected array'')
         else (case value_str (arr ! 0) of
                 None \<Rightarrow> Err (from_str ''expected string'')
               | Some k \<Rightarrow>
                   if k \<in> {''subscribe'', ''unsubscribe'', ''psubscribe'', ''punsubscribe''} then
                     Ok (Subscription k (str_or_empty (arr ! 1)) (int_or_zero (arr ! 2)))
                   else if k = ''message'' then
                     Ok (Message (str_or_empty (arr ! 1)) (str_or_empty (arr ! 2)))
                   else if k = ''pmessage'' \<and> 4 \<le> length arr then
                     Ok (PMessage (str_or_empty (arr ! 1)) (str_or_empty (arr ! 2)) (str_or_empty (arr ! 3)))
                   else Err (EOther (''unsupported message: '' @ k)))
     | _ \<Rightarrow> Err (from_str ''expected array''))"

definition receive :: "env \<Rightarrow> 't transport \<Rightarrow> 't PubSub \<Rightarrow> PubSubMessage res \<times> 't PubSub" where
  "receive E N s =
    (case ps_conn s of
       None \<Rightarrow> (Err (from_str ''not subscribed; call subscribe or psubscribe first''), s)
     | Some c \<Rightarrow>
         (case conn_parse_reply E N c of
            (r, c) \<Rightarrow> (bind_outcome r parse_message, s\<lparr>ps_conn := Some c\<rparr>)))"

end
