(* ===== verification/Script.thy ===== *)
theory Script imports Client begin

text \<open>
  \<open>src/script.rs\<close>: Lua scripts, run by their digest first and by their source when the server does
  not know the digest. The digest and its hexadecimal form come from other crates.
\<close>

record Script =
  src :: string
  hash :: string

definition script_new :: "env \<Rightarrow> string \<Rightarrow> Script" where
  "script_new E text = \<lparr>src = text, hash = hex_encode E (sha1_digest E text)\<rparr>"

definition script_load :: "env \<Rightarrow> 't transport \<Rightarrow> Script \<Rightarrow> 't Client \<Rightarrow> string res \<times> 't Client" where
  "script_load E N sc c =
    reply (as_string ''expected string'') (process_cmd E N [''SCRIPT'', ''LOAD'', src sc] c)"

definition int_flag :: "Value \<Rightarrow> bool option" where
  "int_flag v = (case v of VInt i \<Rightarrow> Some (i = 1) | _ \<Rightarrow> None)"

definition script_exists :: "env \<Rightarrow> 't transport \<Rightarrow> Script \<Rightarrow> 't Client \<Rightarrow> bool list res \<times> 't Client" where
  "script_exists E N sc c =
    reply (as_array (\<lambda>arr. Ok (List.map_filter int_flag arr)))
      (process_cmd E N [''SCRIPT'', ''EXISTS'', hash sc] c)"

definition build_args :: "string \<Rightarrow> string \<Rightarrow> string list \<Rightarrow> string list \<Rightarrow> string list" where
  "build_args cmd script_or_hash keys args =
    [cmd, script_or_hash, show_nat (length keys)] @ keys @ args"

definition script_eval ::
  "env \<Rightarrow> 't transport \<Rightarrow> Script \<Rightarrow> string list \<Rightarrow> string list \<Rightarrow> 't Client \<Rightarrow> Value res \<times> 't Client" where
  "script_eval E N sc keys args = process_cmd E N (build_args ''EVAL'' (src sc) keys args)"

definition script_evalsha ::
  "env \<Rightarrow> 't transport \<Rightarrow> Script \<Rightarrow> string list \<Rightarrow> string list \<Rightarrow> 't Client \<Rightarrow> Value res \<times> 't Client" where
  "script_evalsha E N sc keys args = process_cmd E N (build_args ''EVALSHA'' (hash sc) keys args)"

definition is_noscript :: "Error \<Rightarrow> bool" where
  "is_noscript e = (case e of ERedis (RedisError msg) \<Rightarrow> str_contains msg ''NOSCRIPT'' | _ \<Rightarrow> False)"

definition script_run ::
  "env \<Rightarrow> 't transport \<Rightarrow> Script \<Rightarrow> string list \<Rightarrow> string list \<Rightarrow> 't Client \<Rightarrow> Value res \<times> 't Client" where
  "script_run E N sc keys args c =
    (case process_cmd E N (build_args ''EVALSHA'' (hash sc) keys args) c of
       (Ok v, c1) \<Rightarrow> (Ok v, c1)
     | (Err e, c1) \<Rightarrow>
         if is_noscript e then process_cmd E N (build_args ''EVAL'' (src sc) keys args) c1
         else (Err e, c1)
     | (r, c1) \<Rightarrow> (r, c1))"

end
