(* ===== verification/Sentinel.thy ===== *)
theory Sentinel imports Client begin

text \<open>
  \<open>src/sentinel.rs\<close>: the address of the master is asked from the sentinels in turn; the first that
  answers with a host and a port decides.
\<close>

definition DEFAULT_SENTINEL_ADDR :: string where
  "DEFAULT_SENTINEL_ADDR = ''127.0.0.1:26379''"

record FailoverOptions =
  master_name :: string
  sentinel_addrs :: "string list"
  fo_password :: "string option"
  fo_db :: int
  fo_pool_size :: nat
  fo_dial_timeout :: nat
  fo_read_timeout :: "nat option"
  fo_write_timeout :: "nat option"
  fo_idle_timeout :: "nat option"

definition FailoverOptions_default :: FailoverOptions where
  "FailoverOptions_default =
    \<lparr>master_name = ''mymaster'', sentinel_addrs = [DEFAULT_SENTINEL_ADDR], fo_password = None,
     fo_db = 0, fo_pool_size = 10, fo_dial_timeout = from_secs 5, fo_read_timeout = None,
     fo_write_timeout = None, fo_idle_timeout = None\<rparr>"

record FailoverClient =
  fo_opts :: FailoverOptions
  master_addr :: string

definition failover_new :: "FailoverOptions \<Rightarrow> FailoverClient" where
  "failover_new o' = \<lparr>fo_opts = o', master_addr = []\<rparr>"

definition sentinel_options :: "FailoverOptions \<Rightarrow> string \<Rightarrow> ClientOptions" where
  "sentinel_options o' a =
    \<lparr>addr = a, password = None, db = 0, co_pool_size = 1, co_dial_timeout = fo_dial_timeout o',
     co_read_timeout = fo_read_timeout o', co_write_timeout = fo_write_timeout o',
     co_idle_timeout = None\<rparr>"

text \<open>
  One sentinel: a client of its own, the question, and the client is closed again whatever came of
  it. \<open>i\<close> numbers the clients made, since each of them dials anew.
\<close>

definition ask_sentinel ::
  "env \<Rightarrow> 't transport \<Rightarrow> 't network \<Rightarrow> FailoverOptions \<Rightarrow> string \<Rightarrow> Value res \<times> 't Client" where
  "ask_sentinel E N net o' a =
    (case process_cmd E N [''SENTINEL'', ''get-master-addr-by-name'', master_name o']
            (Client_new E N net (sentinel_options o' a)) of
       (r, cl) \<Rightarrow> (r, if r = Pending \<or> r = Hang \<or> r = Panic then cl else snd (client_close cl)))"

text \<open>An answer that names a master: at least two elements, of which the first two are strings.\<close>

definition master_of :: "Value res \<Rightarrow> string option" where
  "master_of r =
    (case r of
       Ok (VArray arr) \<Rightarrow>
         if length arr < 2 then None
         else (case value_str (arr ! 0) of
                 None \<Rightarrow> None
               | Some host \<Rightarrow> map_option (\<lambda>port. host @ '':'' @ port) (value_str (arr ! 1)))
     | _ \<Rightarrow> None)"

fun try_sentinels ::
  "env \<Rightarrow> 't transport \<Rightarrow> (nat \<Rightarrow> 't network) \<Rightarrow> nat \<Rightarrow> string list \<Rightarrow> FailoverClient \<Rightarrow>
    string res \<times> FailoverClient" where
  "try_sentinels E N net i [] fc = (Err (EOther ''redis: all sentinels are unreachable''), fc)"
| "try_sentinels E N net i (a # rest) fc =
    (case fst (ask_sentinel E N (net i) (fo_opts fc) a) of
       Panic \<Rightarrow> (Panic, fc)
     | Pending \<Rightarrow> (Pending, fc)
     | Hang \<Rightarrow> (Hang, fc)
     | r \<Rightarrow>
         (case master_of r of
            Some master \<Rightarrow> (Ok master, fc\<lparr>master_addr := master\<rparr>)
          | None \<Rightarrow> try_sentinels E N net (i + 1) rest fc))"

definition get_master_addr ::
  "env \<Rightarrow> 't transport \<Rightarrow> (nat \<Rightarrow> 't network) \<Rightarrow> FailoverClient \<Rightarrow> string res \<times> FailoverClient" where
  "get_master_addr E N net fc = try_sentinels E N net 0 (sentinel_addrs (fo_opts fc)) fc"

definition master_options :: "FailoverOptions \<Rightarrow> string \<Rightarrow> ClientOptions" where
  "master_options o' a =
    \<lparr>addr = a, password = fo_password o', db = fo_db o', co_pool_size = fo_pool_size o',
     co_dial_timeout = fo_dial_timeout o', co_read_timeout = fo_read_timeout o',
     co_write_timeout = fo_write_timeout o', co_idle_timeout = fo_idle_timeout o'\<rparr>"

text \<open>The client of the master dials over the network as it is after the sentinels were asked.\<close>

definition get_client ::
  "env \<Rightarrow> 't transport \<Rightarrow> (nat \<Rightarrow> 't network) \<Rightarrow> FailoverClient \<Rightarrow> 't Client res \<times> FailoverClient" where
  "get_client E N net fc =
    and_then (get_master_addr E N net fc) (\<lambda>a fc.
      (Ok (Client_new E N (net (length (sentinel_addrs (fo_opts fc)))) (master_options (fo_opts fc) a)), fc))"

end
