(* ===== verification/Protocol_Props.thy ===== *)
theory Protocol_Props imports Session begin

text \<open>
  The properties of the serializer and the parser: round trips, independence of the pieces a reply
  arrives in, bounds, and what malformed input does.
\<close>

section \<open>Samples\<close>

text \<open>A connection on which the given pieces are on their way, for the concrete instances below.\<close>

definition sample_tcp :: "(nat \<times> net_event) list \<Rightarrow> tcp" where
  "sample_tcp evs =
    \<lparr>rbuf = [], inbound = evs, deadline = None, outbound = [], wplan = [], server = (\<lambda>_ _. [])\<rparr>"

lemma sample_tcp_simps [simp]:
  "tcp_backlog (sample_tcp evs) = stream_bytes evs" "tcp_due (sample_tcp evs) = due_bytes None evs"
  by (simp_all add: sample_tcp_def tcp_backlog_def tcp_due_def)

lemma show_nat_digit [simp]: "show_nat 0 = ''0''" "show_nat 1 = ''1''" "show_nat (Suc 0) = ''1''"
    "show_nat 2 = ''2''" "show_nat (Suc (Suc 0)) = ''2''" "show_nat 3 = ''3''" "show_nat 5 = ''5''"
  by code_simp+

lemma can_reserve_sample: "n \<le> 2 ^ 40 \<Longrightarrow> can_reserve sample_env n"
  by (simp add: can_reserve_def isize_max_def)

section \<open>Replies\<close>

text \<open>
  C1. Whatever reply a server encodes, and in whatever pieces and with whatever delays its bytes
  arrive, \<open>parse_reply\<close> on the connection returns that reply (a nil on its own as the error \<open>Nil\<close>)
  and leaves exactly the bytes that follow it.
\<close>

theorem reply_roundtrip:
  assumes "fits E v" and "tcp_backlog s = encode_value v @ rest"
    and "length (encode_value v) \<le> tcp_due s"
  shows "\<exists>t. parse_reply E tcp_net s = (as_result v, t) \<and> tcp_backlog t = rest"
proof -
  have c: "tcp_io.covers (length rest) s (encode_value v @ rest)"
    using assms(2,3) by (simp add: tcp_io.covers_def)
  have "settled (as_result v)" by (cases v) (simp_all add: redis_error_def)
  from tcp_io.parse_reply_sim [OF parse_encoded [OF assms(1)] this c] show ?thesis
    by (auto simp: tcp_io.covers_def)
qed

theorem reply_roundtrip_witness:
  "\<exists>t. parse_reply sample_env tcp_net
      (sample_tcp [(0, Data ''*2''), (3, Data (CRLF @ ''$1'')), (9, Data (CRLF @ ''a'' @ CRLF @ ''$-'')),
                   (1, Data (''1'' @ CRLF @ ''+OK''))]) =
    (Ok (VArray [VBulkString ''a'', VNil]), t) \<and> tcp_backlog t = ''+OK''"
proof -
  have "fits sample_env (VArray [VBulkString ''a'', VNil])"
    using utf8_valid_ascii [of "''a''"] by (simp add: can_reserve_sample)
  from reply_roundtrip [OF this, of "sample_tcp [(0, Data ''*2''), (3, Data (CRLF @ ''$1'')),
      (9, Data (CRLF @ ''a'' @ CRLF @ ''$-'')), (1, Data (''1'' @ CRLF @ ''+OK''))]" "''+OK''"]
  show ?thesis by (simp add: resp_bulk_def)
qed



text \<open>
  C20. Reading a reply from a connection never loops for ever, whatever the peer sends: the call
  returns, panics or waits for the peer; and what it takes from the stream is a prefix of it.
\<close>

theorem parse_reply_terminates:
  "fst (parse_reply E tcp_net s) \<noteq> Hang \<and>
   (\<exists>used. tcp_backlog s = used @ tcp_backlog (snd (parse_reply E tcp_net s)))"
  using tcp_io.parse_reply_no_hang [of E s] tcp_io.parse_reply_reaches [of E s]
  by (cases "parse_reply E tcp_net s") (auto simp: tcp_io.reaches_def)

text \<open>
  Every reply that is returned is well-formed, whatever reader it came from: its integers are in
  the range of \<open>i64\<close> and its strings are valid UTF-8, at every level of nesting.
\<close>

theorem parsed_replies_well_formed:
  assumes "parse_reply E R s = (Ok v, t)"
  shows "wf_Value v"
  by (rule parse_f_wf(1) [OF assms [unfolded parse_reply_def]])

theorem parsed_replies_well_formed_witness: "wf_Value (VStatus ''OK'')"
proof -
  have "fits sample_env (VStatus ''OK'')"
    using utf8_valid_ascii [of "''OK''"] by (simp add: line_text_def MAX_LINE_LEN_def)
  from parse_encoded [OF this, of "[]"] show ?thesis
    using parsed_replies_well_formed [of sample_env byte_reader "encode_value (VStatus ''OK'') @ []"
        "VStatus ''OK''" "[]"] by simp
qed

section \<open>Commands\<close>

text \<open>
  C23. A server that reads what \<open>append_args\<close> wrote gets the arguments back, each as one bulk string,
  and nothing of what follows is touched: no argument can break out of its frame, whatever bytes it
  contains.
\<close>

theorem command_roundtrip:
  assumes "itoa_decimal E" and "can_reserve E (length args * 32)"
    and "\<forall>a \<in> set args. utf8_valid a \<and> can_reserve E (length a + 2)"
  shows "parse_reply E byte_reader (append_args E [] args @ rest) =
    (Ok (VArray (map VBulkString args)), rest)"
proof -
  have "fits E (VArray (map VBulkString args))" using assms(2,3) by simp
  from parse_encoded [OF this] show ?thesis
    using assms(1) by (simp add: append_args_command resp_command_encodes del: encode_value.simps)
qed

theorem command_roundtrip_witness:
  "parse_reply sample_env byte_reader (append_args sample_env [] [''SET'', ''k'', CRLF @ ''$5''] @ ''+'') =
    (Ok (VArray [VBulkString ''SET'', VBulkString ''k'', VBulkString (CRLF @ ''$5'')]), ''+'')"
  using command_roundtrip [of sample_env "[''SET'', ''k'', CRLF @ ''$5'']" "''+''"]
    utf8_valid_ascii [of "''SET''"] utf8_valid_ascii [of "''k''"] utf8_valid_ascii [of "CRLF @ ''$5''"]
  by (simp add: can_reserve_sample)

text \<open>
  C22. \<open>estimate_resp_size\<close> is exact up to one byte: a buffer of that capacity holds the command, so
  \<open>append_args\<close> never reallocates it.
\<close>

theorem estimate_is_tight:
  assumes "itoa_decimal E"
  shows "Suc (length (append_args E [] args)) = estimate_resp_size args"
  using assms by (simp add: append_args_command length_resp_command)

theorem estimate_is_tight_witness:
  "Suc (length (append_args sample_env [] [''GET'', ''key''])) = estimate_resp_size [''GET'', ''key'']"
  by (rule estimate_is_tight) simp

section \<open>Lines and blocks\<close>

text \<open>
  \<open>read_line\<close> delivers exactly the bytes before the next newline, without the line ending,
  however they arrive, and leaves the bytes after it, as long as the line is within the limit.
\<close>

theorem read_line_exact:
  assumes "tcp_backlog s = l @ CRLF @ rest" "LF \<notin> set l" "length l + 1 < MAX_LINE_LEN"
    and "length l + 1 < tcp_due s"
  shows "\<exists>t. read_line tcp_net s = (Ok l, t) \<and> tcp_backlog t = rest"
  using tcp_io.read_line_ok [of s "l @ [CR]" rest] assms by auto

theorem read_line_exact_witness:
  "\<exists>t. read_line tcp_net (sample_tcp [(0, Data ''+O''), (1, Data (''K'' @ [CR])), (0, Data ([LF] @ ''rest''))]) =
    (Ok ''+OK'', t) \<and> tcp_backlog t = ''rest''"
  using read_line_exact [of "sample_tcp [(0, Data ''+O''), (1, Data (''K'' @ [CR])), (0, Data ([LF] @ ''rest''))]"
      "''+OK''" "''rest''"]
  by (simp add: MAX_LINE_LEN_def)

text \<open>
  C37. \<open>read_line\<close> decides on the bytes before the next newline: fewer than the limit are the line,
  delivered without its ending and with the bytes after it left, however they arrive; as many or more
  are the error "line too long", in whatever pieces the limit is crossed.
\<close>

theorem read_line_decides:
  assumes "l = takeWhile (\<lambda>b. b \<noteq> LF) (tcp_backlog s)" "min (length l) MAX_LINE_LEN < tcp_due s"
  shows "\<exists>t. read_line tcp_net s =
      (if length l < MAX_LINE_LEN then Ok (strip_line (l @ [LF])) else Err (redis_err ''line too long''), t) \<and>
    (length l < MAX_LINE_LEN \<longrightarrow> tcp_backlog t = drop (length l + 1) (tcp_backlog s))"
proof -
  define bs where "bs = tcp_backlog s"
  have due: "tcp_due s \<le> length bs" using tcp_io.due_le [of s] by (simp add: bs_def)
  have l: "LF \<notin> set l" unfolding assms(1) by (auto dest: set_takeWhileD)
  show ?thesis
  proof (cases "length l < MAX_LINE_LEN")
    case True
    then have "dropWhile (\<lambda>b. b \<noteq> LF) bs \<noteq> []"
      using assms due takeWhile_dropWhile_id [of "\<lambda>b. b \<noteq> LF" bs] unfolding bs_def by (metis append_Nil2 leD min.strict_order_iff)
    then obtain rest where "bs = l @ LF # rest"
      using takeWhile_dropWhile_id [of "\<lambda>b. b \<noteq> LF" bs] hd_dropWhile [of "\<lambda>b. b \<noteq> LF" bs] assms(1)
      unfolding bs_def by (metis list.collapse)
    then show ?thesis
      using tcp_io.read_line_ok [of s l rest] l True assms(2) by (auto simp: bs_def)
  next
    case False
    define p where "p = take MAX_LINE_LEN l"
    have "l = takeWhile (\<lambda>b. b \<noteq> LF) bs" using assms(1) by (simp add: bs_def)
    then have "take MAX_LINE_LEN bs = p" using False unfolding p_def by (metis linorder_not_less takeWhile_eq_take take_take min.absorb1)
    moreover have "MAX_LINE_LEN < length bs" using False assms(2) due by simp
    ultimately obtain x rest where "bs = p @ x # rest" by (metis id_take_nth_drop)
    moreover have "LF \<notin> set p" "length p = MAX_LINE_LEN"
      using l False by (auto simp: p_def dest: in_set_takeD)
    ultimately show ?thesis
      using tcp_io.read_line_too_long [of s p x rest] False assms(2) by (auto simp: bs_def)
  qed
qed

theorem read_line_decides_witness:
  "\<exists>t. read_line tcp_net (sample_tcp [(0, Data (replicate 65000 (CHR ''x''))), (1, Data (replicate 1000 (CHR ''x'')))]) =
    (Err (redis_err ''line too long''), t)"
  using read_line_decides [of "replicate 66000 (CHR ''x'')"
      "sample_tcp [(0, Data (replicate 65000 (CHR ''x''))), (1, Data (replicate 1000 (CHR ''x'')))]"]
  by (auto simp: MAX_LINE_LEN_def replicate_add [symmetric])

lemma scan_line_bound:
  "scan_line line i bs = Some (line', n, found) \<Longrightarrow> length line \<le> MAX_LINE_LEN \<Longrightarrow>
    length line' \<le> MAX_LINE_LEN"
  by (induction line i bs rule: scan_line.induct) (auto split: if_splits)

lemma strip_line_shorter: "length (strip_line l) \<le> length l"
  by (simp add: strip_line_def)

lemma read_line_loop_bound:
  "read_line_loop R line s = (Ok l, t) \<Longrightarrow> length line \<le> MAX_LINE_LEN \<Longrightarrow> length l \<le> MAX_LINE_LEN"
proof (induction "MAX_LINE_LEN - length line" arbitrary: line s rule: less_induct)
  case less
  from less.prems(1) show ?case
  proof (cases rule: read_line_loop_round)
    case (more buf u line' n)
    have "MAX_LINE_LEN - length line' < MAX_LINE_LEN - length line"
      using scan_line_grows [OF more(3)] more(2) by (cases buf) auto
    then show ?thesis
      using less.hyps more(4) scan_line_bound [OF more(3) less.prems(2)] by blast
  next
    case (found buf u line' n)
    then show ?thesis
      using scan_line_bound [OF found(3) less.prems(2)] strip_line_shorter [of line'] by auto
  qed (use less.prems in \<open>auto split: if_splits\<close>)
qed

text \<open>
  No line longer than \<open>MAX_LINE_LEN\<close> is ever returned, whatever the reader delivers: the memory
  a line can take is bounded.
\<close>

theorem read_line_bounded:
  assumes "read_line R s = (Ok l, t)"
  shows "length l \<le> MAX_LINE_LEN"
  using read_line_loop_bound assms by (fastforce simp: read_line_def)

theorem read_line_bounded_witness: "length (strip_line (''+OK'' @ [LF])) \<le> MAX_LINE_LEN"
  using read_line_bounded [of byte_reader "''+OK'' @ LF # []" _ "[]"] read_line_bytes [of "''+OK''" "[]"]
  by (simp add: MAX_LINE_LEN_def)

section \<open>Malformed replies\<close>

text \<open>
  C35. A negative array length other than -1 does not become an error: the capacity request for it
  panics, for every reader that delivers the line.
\<close>

theorem negative_array_length_panics:
  assumes "tcp_backlog s = CHR ''*'' # show_int i @ CRLF @ rest" and "i < -1" "in_i64 i"
    and "tcp_due s = length (tcp_backlog s)"
  shows "fst (parse_reply E tcp_net s) = Panic"
proof -
  define l where "l = CHR ''*'' # show_int i"
  have "length (show_int i) \<le> 21" using assms(3) by (rule show_int_i64_short)
  then have "tcp_backlog s = (l @ [CR]) @ LF # rest" "LF \<notin> set (l @ [CR])"
    "length (l @ [CR]) < MAX_LINE_LEN" "length (l @ [CR]) < tcp_due s"
    using assms(1,4) by (simp_all add: l_def MAX_LINE_LEN_def)
  then obtain t where t: "read_line tcp_net s = (Ok l, t)"
    using tcp_io.read_line_ok [of s "l @ [CR]" rest] by auto
  have "show_int i \<noteq> ''-1''"
  proof
    assume a: "show_int i = ''-1''"
    have "parse_i64 ''-1'' = Some (- 1)" by (simp add: parse_i64_def digit_val_def in_i64_def)
    then show False using parse_i64_show_int [OF assms(3)] a assms(2) by simp
  qed
  then have n: "array_length (show_int i) = Ok i"
    using parse_i64_show_int [OF assms(3)] by (simp add: array_length_def from_utf8_def)
  have "with_capacity E size_of_Value (as_u64 i) = Panic"
    using assms(2,3) by (intro with_capacity_negative) (auto simp: size_of_Value_def)
  then show ?thesis using t n by (simp add: tcp_io.parse_reply_eq dispatch_def l_def)
qed

theorem negative_array_length_panics_witness:
  "fst (parse_reply sample_env tcp_net (sample_tcp [(0, Data (''*-2'' @ CRLF))])) = Panic"
  using negative_array_length_panics [of "sample_tcp [(0, Data (''*-2'' @ CRLF))]" "- 2" "[]" sample_env]
  by (simp add: show_int_def in_i64_def)

text \<open>
  C34. An error among the elements of an array fails the whole array, and the elements after it are
  still to be read: the next reply read from the connection is one of them.
\<close>

theorem error_element_leaves_rest:
  assumes "\<forall>v \<in> set before. fits E v" "line_text msg" "utf8_lossy msg \<noteq> ''line too long''"
    and "can_reserve E ((length before + 1 + length after) * 32)"
    and "tcp_backlog s = CHR ''*'' # show_nat (length before + 1 + length after) @ CRLF @
      concat (map encode_value before) @ encode_error msg @ concat (map encode_value after) @ rest"
    and "tcp_due s = length (tcp_backlog s)"
  shows "\<exists>t. parse_reply E tcp_net s = (Err (ERedis (RedisError (utf8_lossy msg))), t) \<and>
    tcp_backlog t = concat (map encode_value after) @ rest"
proof -
  define tl where "tl = concat (map encode_value after) @ rest"
  define n where "n = length before + 1 + length after"
  have loop: "parse_slice_loop E byte_reader (length before + Suc k) vals
      (concat (map encode_value before) @ encode_error msg @ tl) =
      (Err (ERedis (RedisError (utf8_lossy msg))), tl)" for k vals
    using assms(1)
  proof (induction before arbitrary: vals)
    case Nil
    then show ?case
      using parse_encoded_error [OF assms(2)] by (simp add: whole.parse_slice_loop_Suc)
  next
    case (Cons v vs)
    then have "parse_reply E byte_reader (encode_value v @
        (concat (map encode_value vs) @ encode_error msg @ tl)) =
        (as_result v, concat (map encode_value vs) @ encode_error msg @ tl)"
      by (intro parse_encoded) simp
    then show ?case using Cons by (cases v) (simp_all add: whole.parse_slice_loop_Suc)
  qed
  have "parse_reply E byte_reader (tcp_backlog s) = (Err (ERedis (RedisError (utf8_lossy msg))), tl)"
    using parse_array_header [of E n "concat (map encode_value before) @ encode_error msg @ tl"]
      assms(4,5) loop [of "length after" "[]"] by (simp add: n_def tl_def)
  from tcp_io.parse_reply_sim [OF this, of 0 s] assms(3,6) show ?thesis
    by (auto simp: tcp_io.covers_def tl_def redis_error_def)
qed

theorem error_element_leaves_rest_witness:
  "\<exists>t. parse_reply sample_env tcp_net (sample_tcp [(0, Data (''*3'' @ CRLF @ '':1'' @ CRLF @ ''-ERR'' @ CRLF)),
        (5, Data ('':2'' @ CRLF))]) =
      (Err (ERedis (RedisError (utf8_lossy ''ERR''))), t) \<and> tcp_backlog t = '':2'' @ CRLF"
proof -
  have "utf8_lossy ''ERR'' = ''ERR''" using utf8_valid_ascii [of "''ERR''"] utf8_lossy_id by simp
  then show ?thesis
    using error_element_leaves_rest [of "[VInt 1]" sample_env "''ERR''" "[VInt 2]"
      "sample_tcp [(0, Data (''*3'' @ CRLF @ '':1'' @ CRLF @ ''-ERR'' @ CRLF)), (5, Data ('':2'' @ CRLF))]" "[]"]
    by (simp add: line_text_def MAX_LINE_LEN_def can_reserve_sample encode_error_def show_int_def in_i64_def
        flip: One_nat_def)
qed

text \<open>
  C36. At the end of the stream an unfinished line is returned as if it were complete: a connection
  cut off inside a status reply yields the truncated status as a success.
\<close>

theorem truncated_status_accepted:
  assumes "s = sample_tcp [(d, Data (CHR ''+'' # txt)), (d', Eof)]" and "utf8_valid txt"
    and "LF \<notin> set txt" "length txt < 1000"
  shows "fst (parse_reply E tcp_net s) = Ok (VStatus txt)"
proof -
  define l where "l = CHR ''+'' # txt"
  have lf: "LF \<notin> set l" "length l \<le> MAX_LINE_LEN" "length l \<le> BUF_CAPACITY" "l \<noteq> []"
    using assms(3,4) by (simp_all add: l_def MAX_LINE_LEN_def BUF_CAPACITY_def)
  have f1: "tcp_fill s = (Ok l, s\<lparr>rbuf := l, inbound := [(d', Eof)]\<rparr>)"
    using lf assms(1) by (simp add: tcp_fill_def sample_tcp_def l_def)
  define s1 where "s1 = s\<lparr>rbuf := [], inbound := [(d', Eof)]\<rparr>"
  have f2: "tcp_fill s1 = (Ok [], s1\<lparr>inbound := [(0, Eof)]\<rparr>)"
    using assms(1) by (simp add: tcp_fill_def s1_def sample_tcp_def)
  have "read_line_loop tcp_net [] s = read_line_loop tcp_net l s1"
    using f1 lf scan_line_no_newline [of l "[]" 0]
    by (subst read_line_loop.simps) (cases s, simp add: tcp_consume_def s1_def)
  also have "\<dots> = (Ok l, s1\<lparr>inbound := [(0, Eof)]\<rparr>)"
    using f2 lf(4) by (subst read_line_loop.simps) simp
  finally have "read_line tcp_net s = (Ok (CHR ''+'' # txt), s1\<lparr>inbound := [(0, Eof)]\<rparr>)"
    by (simp add: read_line_def l_def)
  then show ?thesis
    using assms(2) by (simp add: tcp_io.parse_reply_eq dispatch_def utf8_lossy_id)
qed

theorem truncated_status_accepted_witness:
  "fst (parse_reply sample_env tcp_net (sample_tcp [(0, Data ''+QUEU''), (0, Eof)])) = Ok (VStatus ''QUEU'')"
  using truncated_status_accepted [of "sample_tcp [(0, Data ''+QUEU''), (0, Eof)]" 0 "''QUEU''" 0 sample_env]
    utf8_valid_ascii [of "''QUEU''"] by simp

end
