(* ===== verification/Pool_Props.thy ===== *)
theory Pool_Props imports Pool_Owners Protocol_Props begin

text \<open>
  The properties of the connection pool: what one call gives, how permits are accounted for, and
  what holds under every interleaving of the tasks.
\<close>

section \<open>Samples\<close>

definition sample_dial :: "nat \<Rightarrow> tcp res" where
  "sample_dial n = Ok (sample_tcp [])"

definition sample_opts :: "nat \<Rightarrow> tcp PoolOptions" where
  "sample_opts n = PoolOptions_default\<lparr>pool_size := n\<rparr>"

definition sample_conn :: "tcp connection" where
  "sample_conn = connection_new (sample_tcp [])"

lemma sample_opts_simps [simp]:
  "pool_size (sample_opts n) = n" "init_conn (sample_opts n) = None"
  "idle_timeout (sample_opts n) = None"
  by (simp_all add: sample_opts_def PoolOptions_default_def)

lemma sample_conn_clean [simp]: "buffer_size tcp_net sample_conn = 0"
  by (simp add: buffer_size_def sample_conn_def connection_new_def sample_tcp_def)

lemma sample_prepare [simp]: "prepare (sample_opts n) sample_conn = sample_conn"
  by (simp add: prepare_def sample_conn_def connection_new_def set_read_timeout_def
      set_write_timeout_def sample_opts_def PoolOptions_default_def)

definition sample_pool :: "nat \<Rightarrow> tcp PooledConnection list \<Rightarrow> tcp ConnPool" where
  "sample_pool n pcs = (pool_new sample_dial (sample_opts n))\<lparr>idle := pcs\<rparr>"

lemma sample_pool_simps [simp]:
  "permits (sample_pool n pcs) = n" "idle (sample_pool n pcs) = pcs" "\<not> closed (sample_pool n pcs)"
  "opts (sample_pool n pcs) = sample_opts n" "clock (sample_pool n pcs) = 0"
  "dial (sample_pool n pcs) = sample_dial"
  by (simp_all add: sample_pool_def pool_new_def)

lemma sample_pool_update [simp]:
  "(sample_pool n pcs)\<lparr>idle := xs\<rparr> = sample_pool n xs"
  "(sample_pool n pcs)\<lparr>permits := k, idle := xs\<rparr> = (sample_pool n xs)\<lparr>permits := k\<rparr>"
  by (simp_all add: sample_pool_def)

lemma sample_expired [simp]: "\<not> expired (sample_pool n pcs) pc"
  by (simp add: expired_def)

section \<open>One call\<close>

text \<open>
  C21. A call of \<open>get\<close> on an open pool with a free permit gives the youngest idle connection that has
  not passed the idle timeout, with the timeouts of the pool set on it; the expired ones above it are
  dropped, the older ones stay. Only when there is none is a new connection dialled. One permit is
  taken.
\<close>

theorem get_serves_youngest_usable:
  assumes "\<not> closed p" "0 < permits p"
  shows "pool_get p =
    (case dropWhile (expired p) (rev (idle p)) of
       pc # older \<Rightarrow>
         (Ok (prepare (opts p) (pc_conn pc)), p\<lparr>permits := permits p - 1, idle := rev older\<rparr>)
     | [] \<Rightarrow> pool_dial (p\<lparr>permits := permits p - 1, idle := []\<rparr>))"
  using pool_get_result [OF assms] by (simp add: usable_def)

theorem get_serves_youngest_usable_witness:
  "pool_get (sample_pool 2 [\<lparr>pc_conn = connection_new (sample_tcp [(0, Eof)]), used_at = 0\<rparr>,
                            \<lparr>pc_conn = sample_conn, used_at = 0\<rparr>]) =
    (Ok sample_conn, (sample_pool 2 [\<lparr>pc_conn = connection_new (sample_tcp [(0, Eof)]), used_at = 0\<rparr>])
      \<lparr>permits := 1\<rparr>)"
  using get_serves_youngest_usable [of "sample_pool 2
      [\<lparr>pc_conn = connection_new (sample_tcp [(0, Eof)]), used_at = 0\<rparr>,
       \<lparr>pc_conn = sample_conn, used_at = 0\<rparr>]"]
  by simp

text \<open>
  C15. Whatever a client does with a guarded connection, when the call comes back (or panics) the
  pool is sound again and has as many free permits as before: no permit is lost or made up, and no
  connection with unread bytes enters the pool.
\<close>

theorem guarded_call_balanced:
  assumes "pool_ok N p" "with_guard N act p = (r, p')" "returned r \<or> r = Panic"
  shows "pool_ok N p' \<and> permits p' = permits p"
  using assms unfolding with_guard_def by (rule pool.session_balanced)

theorem guarded_call_balanced_witness:
  "pool_ok tcp_net ((sample_pool 1 [])\<lparr>dialled := 1, idle := [\<lparr>pc_conn = sample_conn, used_at = 0\<rparr>]\<rparr>) \<and>
   permits ((sample_pool 1 [])\<lparr>dialled := 1, idle := [\<lparr>pc_conn = sample_conn, used_at = 0\<rparr>]\<rparr>) =
   permits (sample_pool 1 [])"
proof (rule guarded_call_balanced)
  show "pool_ok tcp_net (sample_pool 1 [])" by (simp add: pool_ok_def)
  have d: "pool_dial ((sample_pool 1 [])\<lparr>permits := 0, idle := []\<rparr>) =
      (Ok sample_conn, (sample_pool 1 [])\<lparr>permits := 0, dialled := 1\<rparr>)"
    by (simp add: pool_dial_def unwind_def sample_pool_def pool_new_def sample_dial_def
        sample_conn_def [symmetric])
  have "pool_get (sample_pool 1 []) = (Ok sample_conn, (sample_pool 1 [])\<lparr>permits := 0, dialled := 1\<rparr>)"
    using pool_get_result [of "sample_pool 1 []"] d by (simp add: usable_def)
  then show "with_guard tcp_net (\<lambda>c. (Ok (), c)) (sample_pool 1 []) =
      (Ok (), (sample_pool 1 [])\<lparr>dialled := 1, idle := [\<lparr>pc_conn = sample_conn, used_at = 0\<rparr>]\<rparr>)"
    by (simp add: with_guard_def guard_drop_def pool_put_def release_def sample_pool_def pool_new_def)
qed simp

text \<open>
  Once \<open>close\<close> has run, \<open>get\<close> fails with \<open>Closed\<close>, the pool holds no connection, and guards that
  are dropped later add none.
\<close>

theorem closed_pool_is_final:
  assumes "pool_ok N p" "pool_close p = (r, q)"
  shows "r = Ok () \<and> closed q \<and> idle q = [] \<and> pool_get q = (Err EClosed, q) \<and>
    closed (guard_drop N c q) \<and> idle (guard_drop N c q) = []"
proof -
  have q: "r = Ok ()" "closed q" "idle q = []"
    using assms by (auto simp: pool_close_def pool_ok_def split: if_splits)
  then show ?thesis by (simp add: pool_get_closed guard_drop_def pool_put_def)
qed

theorem closed_pool_is_final_witness:
  "pool_get ((sample_pool 1 [])\<lparr>closed := True\<rparr>) = (Err EClosed, (sample_pool 1 [])\<lparr>closed := True\<rparr>)"
  using closed_pool_is_final [of tcp_net "sample_pool 1 [\<lparr>pc_conn = sample_conn, used_at = 0\<rparr>]" "Ok ()"
      "(sample_pool 1 [])\<lparr>closed := True\<rparr>"]
  by (simp add: pool_ok_def pool_close_def) (simp add: sample_pool_def)

section \<open>All interleavings\<close>

lemma reachable_run_new:
  "reachable N s \<lparr>shared = p, locked = l, tasks = ts\<rparr> \<Longrightarrow> i < length ts \<Longrightarrow>
    tstep N i p l (ts ! i) p' l' t' new \<Longrightarrow>
    reachable N s \<lparr>shared = p', locked = l', tasks = ts[i := t'] @ new\<rparr>"
  using pstep.run [of i "\<lparr>shared = p, locked = l, tasks = ts\<rparr>" N p' l' t' new]
  by (auto intro: reachable.move)

lemma reachable_call_get:
  "reachable N s \<lparr>shared = p, locked = l, tasks = ts\<rparr> \<Longrightarrow>
    reachable N s \<lparr>shared = p, locked = l, tasks = ts @ [GetStart]\<rparr>"
  using pstep.call_get [of N "\<lparr>shared = p, locked = l, tasks = ts\<rparr>"] by (auto intro: reachable.move)

lemma reachable_call_close:
  "reachable N s \<lparr>shared = p, locked = l, tasks = ts\<rparr> \<Longrightarrow>
    reachable N s \<lparr>shared = p, locked = l, tasks = ts @ [CloseStart]\<rparr>"
  using pstep.call_close [of N "\<lparr>shared = p, locked = l, tasks = ts\<rparr>"] by (auto intro: reachable.move)

text \<open>A pool of one permit whose only connection has just been dialled.\<close>

definition sample_sys :: "tcp sys" where
  "sample_sys = sys_new sample_dial (sample_opts 1)"

lemma sample_dial_get:
  "permits p = 1 \<Longrightarrow> \<not> closed p \<Longrightarrow> idle p = [] \<Longrightarrow> opts p = sample_opts 1 \<Longrightarrow> dial p = sample_dial \<Longrightarrow>
    pool_get p = (Ok sample_conn, p\<lparr>permits := 0, dialled := Suc (dialled p)\<rparr>)"
proof -
  assume a: "permits p = 1" "\<not> closed p" "idle p = []" "opts p = sample_opts 1" "dial p = sample_dial"
  have "p\<lparr>permits := 0, idle := []\<rparr> = p\<lparr>permits := 0\<rparr>" using a by (cases p) simp
  then show ?thesis
    using pool_get_result [of p] a
    by (simp add: usable_def pool_dial_def unwind_def sample_dial_def sample_conn_def [symmetric])
qed

lemma sample_reaches_use:
  "reachable tcp_net sample_sys
    \<lparr>shared = (sample_pool 1 [])\<lparr>permits := 0, dialled := 1\<rparr>, locked = None, tasks = [Using sample_conn]\<rparr>"
proof -
  have n: "dialled (sample_pool 1 []) = 0" by (simp add: sample_pool_def pool_new_def)
  have "pool_get (sample_pool 1 []) = (Ok sample_conn, (sample_pool 1 [])\<lparr>permits := 0, dialled := 1\<rparr>)"
    using sample_dial_get [of "sample_pool 1 []"] n by simp
  from pool_get_run [OF this, of "Using sample_conn" _ 0 "[GetStart]" tcp_net]
  have "reachable tcp_net \<lparr>shared = sample_pool 1 [], locked = None, tasks = [GetStart]\<rparr>
      \<lparr>shared = (sample_pool 1 [])\<lparr>permits := 0, dialled := 1\<rparr>, locked = None, tasks = [Using sample_conn]\<rparr>"
    by simp
  moreover have s: "sample_sys = \<lparr>shared = sample_pool 1 [], locked = None, tasks = []\<rparr>"
    by (simp add: sample_sys_def sys_new_def sample_pool_def pool_new_def)
  have "reachable tcp_net sample_sys \<lparr>shared = sample_pool 1 [], locked = None, tasks = [GetStart]\<rparr>"
    using reachable_call_get [OF reachable.start, of tcp_net "sample_pool 1 []" None "[]"] s by simp
  ultimately show ?thesis using reachable_trans by blast
qed

text \<open>
  C5. In every reachable state the free permits and the calls and guards that hold one add up to
  the size of the pool; so at most \<open>pool_size\<close> guards are in use at a time.
\<close>

theorem permits_conserved:
  assumes "reachable N (sys_new d o') s"
  shows "permits (shared s) + holders (tasks s) = pool_size o' \<and> users (tasks s) \<le> pool_size o'"
  using permit_inv_reachable [OF assms] opts_reachable [OF assms] users_le_holders [of "tasks s"]
  by (simp add: permit_inv_def)

theorem permits_conserved_witness:
  "permits ((sample_pool 1 [])\<lparr>permits := 0, dialled := 1\<rparr>) + holders [Using sample_conn] = 1 \<and>
   users [Using sample_conn] \<le> 1"
  using permits_conserved [OF sample_reaches_use [unfolded sample_sys_def]] by simp

text \<open>
  C6. A connection has one owner: in every reachable state, a connection that a call or a guard has is
  not among the idle ones, and no other call, guard or returning task has it; so two guards never
  work on the same connection. (The dialled connections are told apart by a number; the users do
  not exchange theirs for another.)
\<close>

theorem connection_has_one_owner:
  assumes "honest N ident (sys_new d o') s" "numbers ident d o'"
    and "i < length (tasks s)" "x \<in># task_ids ident (tasks s ! i)"
  shows "x \<notin># idle_ids ident (shared s) \<and>
    (\<forall>j < length (tasks s). j \<noteq> i \<longrightarrow> x \<notin># task_ids ident (tasks s ! j))"
  using owned_once_honest [OF assms(1,2)] owned_once_idle [of ident s i x] owned_once_tasks [of ident s i _ x]
    assms(3,4) by auto

text \<open>Two calls of \<open>get\<close> on a new pool whose connections are numbered by what has been written to them.\<close>

definition numbered_dial :: "nat \<Rightarrow> tcp res" where
  "numbered_dial n = Ok ((sample_tcp [])\<lparr>outbound := replicate n CR\<rparr>)"

definition written_count :: "tcp \<Rightarrow> nat" where
  "written_count t = length (outbound t)"

theorem connection_has_one_owner_witness:
  "\<exists>s c c'. honest tcp_net written_count (sys_new numbered_dial (sample_opts 2)) s \<and>
    tasks s = [Using c, Using c'] \<and> written_count (stream c) \<noteq> written_count (stream c')"
proof -
  define p where "p = pool_new numbered_dial (sample_opts 2)"
  define c where "c n = prepare (sample_opts 2) (connection_new ((sample_tcp [])\<lparr>outbound := replicate n CR\<rparr>))" for n
  have n: "numbers written_count numbered_dial (sample_opts 2)"
    by (auto simp: numbers_def numbered_dial_def written_count_def sample_opts_def PoolOptions_default_def)
  have g: "\<exists>q'. ended (pool_get q) = Some (Using (c (dialled q)), q') \<and> permits q' = permits q - 1 \<and>
      dialled q' = Suc (dialled q) \<and> \<not> closed q' \<and> idle q' = [] \<and> opts q' = opts q \<and> dial q' = dial q"
    if "\<not> closed q" "0 < permits q" "idle q = []" "opts q = sample_opts 2" "dial q = numbered_dial" for q
    using that by (simp add: pool_get.simps [of q] pop_idle_def pool_dial_def unwind_def numbered_dial_def c_def
        sample_opts_def PoolOptions_default_def Let_def)
  have "honest tcp_net written_count (sys_new numbered_dial (sample_opts 2)) \<lparr>shared = p, locked = None, tasks = []\<rparr>"
    using honest.begins [of tcp_net written_count "sys_new numbered_dial (sample_opts 2)"]
    by (simp add: sys_new_def p_def)
  moreover have p: "\<not> closed p" "0 < permits p" "idle p = []" "opts p = sample_opts 2" "dial p = numbered_dial"
    "permits p = 2" by (simp_all add: p_def pool_new_def sample_opts_def)
  ultimately obtain q where q: "honest tcp_net written_count (sys_new numbered_dial (sample_opts 2))
      \<lparr>shared = q, locked = None, tasks = [Using (c (dialled p))]\<rparr>" "permits q = 1"
    "\<not> closed q" "idle q = []" "opts q = sample_opts 2" "dial q = numbered_dial"
    using g [OF p(1-5)] pool_get_honest [of tcp_net written_count _ p "[]"] by fastforce
  then obtain u where u: "honest tcp_net written_count (sys_new numbered_dial (sample_opts 2))
      \<lparr>shared = u, locked = None, tasks = [Using (c (dialled p)), Using (c (dialled q))]\<rparr>"
    using g [of q] pool_get_honest [OF q(1)] by fastforce
  from connection_has_one_owner [OF this n, of 0 "written_count (stream (c (dialled p)))"]
  have "written_count (stream (c (dialled p))) \<noteq> written_count (stream (c (dialled q)))"
    by (auto dest!: spec [of _ 1])
  then show ?thesis using u by (intro exI conjI) (assumption, simp_all)
qed

text \<open>What follows when a guard is dropped: the spawned task puts the connection back.\<close>

lemma reachable_put:
  assumes "reachable N s \<lparr>shared = p, locked = None, tasks = ts\<rparr>" "i < length ts" "ts ! i = PutStart c"
    and "buffer_size N c = 0" "\<not> closed p"
  shows "reachable N s \<lparr>shared = p\<lparr>idle := idle p @ [\<lparr>pc_conn = c, used_at = clock p\<rparr>]\<rparr>, locked = None,
    tasks = ts[i := Finished]\<rparr>"
proof -
  define pc where "pc = \<lparr>pc_conn = c, used_at = clock p\<rparr>"
  have 1: "reachable N s \<lparr>shared = p, locked = None, tasks = ts[i := PutWait pc]\<rparr>"
    using reachable_run_new [OF assms(1,2), of p None "PutWait pc" "[]"]
      tstep.put_stamp [OF assms(4), of i p None] assms(3) by (simp add: pc_def)
  have 2: "reachable N s \<lparr>shared = p, locked = Some i, tasks = ts[i := PutPush pc]\<rparr>"
    using reachable_run_new [OF 1, of i p "Some i" "PutPush pc" "[]"]
      tstep.put_lock [OF assms(5), of N i pc] assms(2) by simp
  show ?thesis
    using reachable_run_new [OF 2, of i "p\<lparr>idle := idle p @ [pc]\<rparr>" None Finished "[]"]
      tstep.put_push [of N i p pc] assms(2) by (simp add: pc_def)
qed

lemma reachable_drop:
  assumes "reachable N s \<lparr>shared = p, locked = l, tasks = ts\<rparr>" "i < length ts" "ts ! i = Using c"
    and "buffer_size N c = 0"
  shows "reachable N s \<lparr>shared = release p, locked = l, tasks = ts[i := Finished] @ [PutStart c]\<rparr>"
proof -
  have 1: "reachable N s \<lparr>shared = p, locked = l, tasks = ts[i := Releasing] @ [PutStart c]\<rparr>"
    using reachable_run_new [OF assms(1,2), of p l Releasing "[PutStart c]"]
      tstep.drop_clean [OF assms(4), of i p l] assms(3) by simp
  show ?thesis
    using reachable_run_new [OF 1, of i "release p" l Finished "[]"]
      tstep.release_permit [of N i p l] assms(2) by (simp add: nth_append list_update_append)
qed

lemma reachable_close_set:
  assumes "reachable N s \<lparr>shared = p, locked = None, tasks = ts\<rparr>" "\<not> closed p"
  shows "reachable N s \<lparr>shared = p\<lparr>closed := True\<rparr>, locked = None, tasks = ts @ [CloseClear]\<rparr>"
  using reachable_run_new [OF reachable_call_close [OF assms(1)], of "length ts"]
    tstep.close_set [OF assms(2), of N "length ts"] by fastforce

text \<open>
  C7. When a call of \<open>close\<close> has cleared the list, the pool is closed and holds no connection, and this
  stays so in every later state: no interleaving of \<open>put\<close>, \<open>get\<close> and cancellations with \<open>close\<close> brings
  one back.
\<close>

theorem closed_pool_stays_empty:
  assumes "reachable N (sys_new d o') s" "i < length (tasks s)" "tasks s ! i = CloseClear"
    and "tstep N i (shared s) (locked s) CloseClear p' l' t' new"
    and "reachable N \<lparr>shared = p', locked = l', tasks = (tasks s)[i := t'] @ new\<rparr> s'"
  shows "closed (shared s') \<and> idle (shared s') = []"
proof -
  define s1 where "s1 = \<lparr>shared = p', locked = l', tasks = (tasks s)[i := t'] @ new\<rparr>"
  have "pstep N s s1" using pstep.run [OF assms(2)] assms(3,4) by (simp add: s1_def)
  then have "lock_inv s1" using lock_inv_reachable [OF assms(1)] lock_inv_step by blast
  moreover have "closed (shared s)"
    using close_inv_reachable [OF assms(1)] assms(2,3) nth_mem by (fastforce simp: close_inv_def)
  then have "emptied s1" using assms(4) by (auto simp: emptied_def s1_def elim: tstep.cases)
  ultimately show ?thesis using emptied_for_ever [of N s1 s'] assms(5) by (simp add: s1_def emptied_def)
qed

theorem closed_pool_stays_empty_witness:
  "closed ((sample_pool 1 [])\<lparr>dialled := 1, closed := True\<rparr>) \<and>
    idle ((sample_pool 1 [])\<lparr>dialled := 1, closed := True\<rparr>) = []"
proof -
  define p where "p = (sample_pool 1 [])\<lparr>permits := 0, dialled := 1\<rparr>"
  define q where "q = p\<lparr>closed := True\<rparr>"
  have s: "reachable tcp_net sample_sys \<lparr>shared = q, locked = None, tasks = [Using sample_conn, CloseClear]\<rparr>"
    using reachable_close_set [OF sample_reaches_use] by (simp add: p_def q_def)
  have e: "q\<lparr>idle := []\<rparr> = q" by (simp add: q_def p_def sample_pool_def pool_new_def)
  have c: "tstep tcp_net 1 q None CloseClear q None Finished []"
    using tstep.close_clear [of tcp_net 1 q None] unfolding e .
  have "reachable tcp_net \<lparr>shared = q, locked = None, tasks = [Using sample_conn, CloseClear][1 := Finished] @ []\<rparr>
      \<lparr>shared = release q, locked = None, tasks = [Finished, Finished, PutStart sample_conn]\<rparr>"
    using reachable_drop [OF reachable.start, of 0 "[Using sample_conn, Finished]" sample_conn tcp_net q None]
    by simp
  then show ?thesis
    using closed_pool_stays_empty [OF s [unfolded sample_sys_def], of 1 q None Finished "[]"] c
    by (simp add: q_def p_def release_def)
qed

text \<open>
  In every reachable state the idle connections are fit for reuse: their buffers hold no unread
  bytes, and the time they were given back is not in the future.
\<close>

theorem idle_connections_clean:
  assumes "reachable N (sys_new d o') s" "pc \<in> set (idle (shared s))"
  shows "buffer_size N (pc_conn pc) = 0 \<and> used_at pc \<le> clock (shared s)"
  using clean_inv_reachable [OF assms(1)] assms(2) by (auto simp: clean_inv_def fit_for_reuse_def)

lemma sample_reaches_idle:
  "reachable tcp_net sample_sys
    \<lparr>shared = (sample_pool 1 [])\<lparr>dialled := 1, idle := [\<lparr>pc_conn = sample_conn, used_at = 0\<rparr>]\<rparr>,
     locked = None, tasks = [Finished, Finished]\<rparr>"
proof -
  have r: "release ((sample_pool 1 [])\<lparr>permits := 0, dialled := 1\<rparr>) = (sample_pool 1 [])\<lparr>dialled := 1\<rparr>"
    by (simp add: release_def sample_pool_def pool_new_def)
  have "reachable tcp_net sample_sys \<lparr>shared = (sample_pool 1 [])\<lparr>dialled := 1\<rparr>, locked = None,
      tasks = [Finished, PutStart sample_conn]\<rparr>"
    using reachable_drop [OF sample_reaches_use, of 0 sample_conn] unfolding r by simp
  from reachable_put [OF this, of 1 sample_conn] show ?thesis by simp
qed

theorem idle_connections_clean_witness:
  "buffer_size tcp_net sample_conn = 0 \<and> (0 :: nat) \<le> clock (sample_pool 1 [])"
  using idle_connections_clean [OF sample_reaches_idle [unfolded sample_sys_def],
      of "\<lparr>pc_conn = sample_conn, used_at = 0\<rparr>"] by simp

text \<open>
  C19. A call of \<open>close\<close> that is cancelled after it has set the flag and before it has cleared the list
  leaves the idle connections in a closed pool. When no other call is under way they stay there for
  ever: a later \<open>get\<close> fails, and a later \<open>close\<close> finds the flag set and returns without clearing.
\<close>

theorem cancelled_close_keeps_connections:
  assumes "reachable N (sys_new d o') s" "i < length (tasks s)" "tasks s ! i = CloseClear"
    and "set ((tasks s)[i := Finished]) \<subseteq> {GetStart, CloseStart, Finished}"
    and "reachable N (s\<lparr>tasks := (tasks s)[i := Finished]\<rparr>) s'"
  shows "pstep N s (s\<lparr>tasks := (tasks s)[i := Finished]\<rparr>) \<and> closed (shared s') \<and>
    idle (shared s') = idle (shared s)"
proof -
  have "closed (shared s)"
    using close_inv_reachable [OF assms(1)] assms(2,3) nth_mem by (fastforce simp: close_inv_def)
  moreover from this have "locked s = None"
    using lock_inv_reachable [OF assms(1)] by (auto simp: lock_inv_def)
  ultimately have "at_rest (idle (shared s)) (s\<lparr>tasks := (tasks s)[i := Finished]\<rparr>)"
    using assms(4) by (simp add: at_rest_def)
  then have "at_rest (idle (shared s)) s'" by (rule at_rest_for_ever [OF assms(5)])
  moreover have "pstep N s (s\<lparr>tasks := (tasks s)[i := Finished]\<rparr>)"
    by (rule pstep.cancel) (use assms(2,3) in simp_all)
  ultimately show ?thesis by (simp add: at_rest_def)
qed

theorem cancelled_close_keeps_connections_witness:
  "\<exists>s'. reachable tcp_net sample_sys s' \<and> closed (shared s') \<and> set (tasks s') = {Finished} \<and>
    idle (shared s') = [\<lparr>pc_conn = sample_conn, used_at = 0\<rparr>]"
proof -
  define p where "p = (sample_pool 1 [])\<lparr>dialled := 1,
      idle := [\<lparr>pc_conn = sample_conn, used_at = 0\<rparr>], closed := True\<rparr>"
  have s: "reachable tcp_net sample_sys \<lparr>shared = p, locked = None, tasks = [Finished, Finished, CloseClear]\<rparr>"
    using reachable_close_set [OF sample_reaches_idle] by (simp add: p_def)
  let ?t = "\<lparr>shared = p, locked = None, tasks = [Finished, Finished, Finished]\<rparr>"
  let ?u = "\<lparr>shared = p, locked = None, tasks = [Finished, Finished, Finished, Finished]\<rparr>"
  have "tstep tcp_net 3 p None CloseStart p None Finished []"
    by (rule tstep.close_again) (simp add: p_def)
  then have u: "reachable tcp_net ?t ?u"
    using reachable_run_new [OF reachable_call_close [OF reachable.start], of 3 "[Finished, Finished, Finished]"]
    by fastforce
  note K = cancelled_close_keeps_connections [OF s [unfolded sample_sys_def], of 2 ?u]
  have "pstep tcp_net \<lparr>shared = p, locked = None, tasks = [Finished, Finished, CloseClear]\<rparr> ?t \<and>
      closed (shared ?u) \<and> idle (shared ?u) = idle p"
    using K u by simp
  then show ?thesis
    using reachable_trans [OF reachable.move [OF s] u] by (intro exI [of _ ?u]) (simp add: p_def)
qed

text \<open>
  No deadlock: in every reachable state in which some call, guard, \<open>put\<close> or \<open>close\<close> is not
  finished, one of the tasks can take its next step, provided dialling and the init callback come
  back and the pool has a permit at all.
\<close>

theorem pool_never_deadlocks:
  assumes "reachable N (sys_new d o') s" "answering d o'" "0 < pool_size o'"
    and "t \<in> set (tasks s)" "t \<noteq> Finished"
  shows "\<exists>i < length (tasks s). can_move N i (shared s) (locked s) (tasks s ! i)"
  using assms by (rule some_task_moves)

lemma sample_answering: "answering sample_dial (sample_opts 1)"
  by (simp add: answering_def sample_dial_def)

theorem pool_never_deadlocks_witness:
  "\<exists>i < 1. can_move tcp_net i ((sample_pool 1 [])\<lparr>permits := 0, dialled := 1\<rparr>) None ([Using sample_conn] ! i)"
  using pool_never_deadlocks [OF sample_reaches_use [unfolded sample_sys_def] sample_answering,
      of "Using sample_conn"] by simp

text \<open>
  C9. Every call comes to its end, in every schedule. From a reachable state, let the tasks move by
  themselves in any order: no new calls, no cancellations, every guard given up at some time by its
  user. Such a run has a bounded number of steps, and as long as there is an unfinished task or a
  permit missing, some task can make the next one. (Dialling and the callback come back, with whatever
  result, and the pool has at least one permit.)
\<close>

theorem pool_runs_to_completion:
  assumes "reachable N (sys_new d o') s" "answering d o'" "0 < pool_size o'" "own_steps N n s s'"
  shows "n \<le> 16 * length (tasks s) + 5 * length (idle (shared s)) \<and>
    ((\<exists>i < length (tasks s'). can_move N i (shared s') (locked s') (tasks s' ! i)) \<or>
     (\<forall>t \<in> set (tasks s'). t = Finished) \<and> permits (shared s') = pool_size o')"
  using stuck_finished [OF reachable_trans [OF assms(1) own_steps_reachable [OF assms(4)]] assms(2,3)]
    own_steps_weight [OF assms(4)] weight_le [of s] by (intro conjI) (linarith, blast)

theorem pool_runs_to_completion_witness:
  "\<exists>s'. own_steps tcp_net 2
      \<lparr>shared = (sample_pool 1 [])\<lparr>permits := 0, dialled := 1\<rparr>, locked = None, tasks = [Using sample_conn]\<rparr> s' \<and>
    tasks s' = [Finished] \<and> permits (shared s') = 1"
proof -
  define p where "p = (sample_pool 1 [])\<lparr>permits := 0, dialled := 1\<rparr>"
  have "own_steps tcp_net 1 \<lparr>shared = p, locked = None, tasks = [Using sample_conn]\<rparr>
      \<lparr>shared = p, locked = None, tasks = [Releasing]\<rparr>"
    using own_steps.own_move [OF own_steps.own_start, of 0 "\<lparr>shared = p, locked = None, tasks = [Using sample_conn]\<rparr>"]
      tstep.remove [of tcp_net 0 p None sample_conn] by fastforce
  from own_steps.own_move [OF this, of 0] tstep.release_permit [of tcp_net 0 p None]
  have o: "own_steps tcp_net 2 \<lparr>shared = p, locked = None, tasks = [Using sample_conn]\<rparr>
      \<lparr>shared = release p, locked = None, tasks = [Finished]\<rparr>"
    by (fastforce simp: numeral_2_eq_2)
  have "\<not> can_move tcp_net 0 (release p) None Finished" unfolding can_move_def by (auto elim: tstep.cases)
  then have "permits (release p) = 1"
    using pool_runs_to_completion [OF sample_reaches_use [unfolded sample_sys_def] sample_answering _ o [unfolded p_def]]
    by (simp add: p_def)
  then show ?thesis using o unfolding p_def by (intro exI conjI) (assumption, simp_all)
qed

text \<open>
  A call of \<open>get\<close> during which no other task moves does what the sequential \<open>pool_get\<close> says, and
  nothing else: it can end with the guard, or finished without one, and with a given pool exactly if
  this is the result of \<open>pool_get\<close>; where \<open>pool_get\<close> waits, no run of the call alone comes to an end.
\<close>

theorem get_alone_is_pool_get:
  "alone N i p GetStart q t' \<longleftrightarrow> ended (pool_get p) = Some (t', q)"
  using alone_left_of_get [of N i p GetStart q t'] left_of_get_alone [of GetStart p t' q N i] by auto

text \<open>
  C38. The size of the pool does not bound the connections it keeps: with one permit, a guard can be
  dropped and a second connection dialled before the first has been put back, and two connections
  end up idle.
\<close>

theorem idle_can_exceed_pool_size:
  "\<exists>s. reachable tcp_net (sys_new sample_dial (sample_opts 1)) s \<and>
    pool_size (opts (shared s)) = 1 \<and> length (idle (shared s)) = 2 \<and> set (tasks s) = {Finished}"
proof -
  define p where "p = (sample_pool 1 [])\<lparr>dialled := 1\<rparr>"
  have r: "release ((sample_pool 1 [])\<lparr>permits := 0, dialled := 1\<rparr>) = p"
    by (simp add: release_def sample_pool_def pool_new_def p_def)
  have p: "permits p = 1" "\<not> closed p" "idle p = []" "opts p = sample_opts 1" "dial p = sample_dial"
    "dialled p = 1"
    by (simp_all add: p_def)
  have "reachable tcp_net sample_sys \<lparr>shared = p, locked = None, tasks = [Finished, PutStart sample_conn, GetStart]\<rparr>"
    using reachable_call_get [OF reachable_drop [OF sample_reaches_use, of 0 sample_conn]]
    unfolding r by simp
  moreover define q where "q = p\<lparr>permits := 0, dialled := 2\<rparr>"
  have "pool_get p = (Ok sample_conn, q)"
    using sample_dial_get [OF p(1-5)] p(6) by (simp add: q_def numeral_2_eq_2)
  from pool_get_run [OF this, of "Using sample_conn" _ 2 "[Finished, PutStart sample_conn, GetStart]" tcp_net]
  have "reachable tcp_net \<lparr>shared = p, locked = None, tasks = [Finished, PutStart sample_conn, GetStart]\<rparr>
      \<lparr>shared = q, locked = None, tasks = [Finished, PutStart sample_conn, Using sample_conn]\<rparr>" by simp
  ultimately have "reachable tcp_net sample_sys
      \<lparr>shared = q, locked = None, tasks = [Finished, PutStart sample_conn, Using sample_conn]\<rparr>"
    using reachable_trans by blast
  from reachable_drop [OF this, of 2 sample_conn]
  have "reachable tcp_net sample_sys \<lparr>shared = release q, locked = None,
      tasks = [Finished, PutStart sample_conn, Finished, PutStart sample_conn]\<rparr>" by simp
  from reachable_put [OF reachable_put [OF this, of 1 sample_conn], of 3 sample_conn] p
  have "reachable tcp_net sample_sys \<lparr>shared = (release q)
        \<lparr>idle := [\<lparr>pc_conn = sample_conn, used_at = clock q\<rparr>, \<lparr>pc_conn = sample_conn, used_at = clock q\<rparr>]\<rparr>,
      locked = None, tasks = [Finished, Finished, Finished, Finished]\<rparr>"
    by (simp add: q_def)
  then show ?thesis
    unfolding sample_sys_def using p(4) by (intro exI conjI) (assumption, simp_all add: q_def)
qed

text \<open>
  C39. Closing does not stop a call that waits for a permit. In this run a guard holds the only permit
  and a second call of \<open>get\<close> waits for it; \<open>close\<close> sets the flag, clears the list and is done; then the
  guard is given up, and the call that was waiting gets a connection out of the closed pool.
\<close>

theorem waiting_get_survives_close:
  "\<exists>s s' c c'. reachable tcp_net (sys_new sample_dial (sample_opts 1)) s \<and>
    closed (shared s) \<and> permits (shared s) = 0 \<and> tasks s = [Using c, GetAcquire, Finished] \<and>
    reachable tcp_net s s' \<and> tasks s' = [Finished, Using c', Finished] \<and> closed (shared s')"
proof -
  define p where "p = (sample_pool 1 [])\<lparr>permits := 0, dialled := 1\<rparr>"
  define q where "q = p\<lparr>closed := True\<rparr>"
  have p: "\<not> closed p" by (simp add: p_def)
  have "reachable tcp_net sample_sys \<lparr>shared = p, locked = None, tasks = [Using sample_conn, GetStart]\<rparr>"
    using reachable_call_get [OF sample_reaches_use] by (simp add: p_def)
  from reachable_run_new [OF this, of 1] tstep.get_open [OF p, of tcp_net 1]
  have "reachable tcp_net sample_sys \<lparr>shared = p, locked = None, tasks = [Using sample_conn, GetAcquire]\<rparr>"
    by fastforce
  from reachable_close_set [OF this p]
  have "reachable tcp_net sample_sys \<lparr>shared = q, locked = None, tasks = [Using sample_conn, GetAcquire, CloseClear]\<rparr>"
    by (simp add: q_def)
  moreover have "q\<lparr>idle := []\<rparr> = q" by (simp add: q_def p_def sample_pool_def pool_new_def)
  ultimately have s: "reachable tcp_net sample_sys
      \<lparr>shared = q, locked = None, tasks = [Using sample_conn, GetAcquire, Finished]\<rparr>"
    using reachable_run_new [of tcp_net sample_sys q None "[Using sample_conn, GetAcquire, CloseClear]" 2 q None Finished "[]"]
      tstep.close_clear [of tcp_net 2 q None] by simp
  let ?s = "\<lparr>shared = q, locked = None, tasks = [Using sample_conn, GetAcquire, Finished]\<rparr>"
  have "reachable tcp_net ?s \<lparr>shared = q, locked = None, tasks = [Releasing, GetAcquire, Finished]\<rparr>"
    using reachable_run_new [OF reachable.start, of 0] tstep.remove [of tcp_net 0 q None sample_conn] by fastforce
  from reachable_run_new [OF this, of 0] tstep.release_permit [of tcp_net 0 q None]
  have "reachable tcp_net ?s \<lparr>shared = release q, locked = None, tasks = [Finished, GetAcquire, Finished]\<rparr>"
    by fastforce
  from reachable_run_new [OF this, of 1 q None GetHold "[]"] tstep.acquire [of "release q" tcp_net 1 None]
  have "reachable tcp_net ?s \<lparr>shared = q, locked = None, tasks = [Finished, GetHold, Finished]\<rparr>"
    by (cases q) (simp add: release_def)
  moreover have "pop_idle (idle q) = None" by (simp add: q_def p_def pop_idle_None)
  ultimately have h: "reachable tcp_net ?s \<lparr>shared = q, locked = None, tasks = [Finished, GetDial, Finished]\<rparr>"
    using reachable_run_new [of tcp_net ?s q None "[Finished, GetHold, Finished]" 1 q None GetDial "[]"]
      tstep.pop_none [of q tcp_net 1 None] by simp
  have "dial q (dialled q) = Ok (sample_tcp [])" "init_conn (opts q) = None"
    by (simp_all add: q_def p_def sample_dial_def)
  from tstep.dial_ok [OF this(1) refl, of tcp_net 1 None] this(2)
  have "\<exists>c'. tstep tcp_net 1 q None GetDial (q\<lparr>dialled := dialled q + 1\<rparr>) None (Using c') []" by auto
  then obtain c' where "tstep tcp_net 1 q None GetDial (q\<lparr>dialled := dialled q + 1\<rparr>) None (Using c') []" by blast
  with reachable_run_new [OF h, of 1 "q\<lparr>dialled := dialled q + 1\<rparr>" None "Using c'" "[]"]
  have "reachable tcp_net ?s
      \<lparr>shared = q\<lparr>dialled := dialled q + 1\<rparr>, locked = None, tasks = [Finished, Using c', Finished]\<rparr>" by simp
  then show ?thesis
    using s unfolding sample_sys_def
    by (intro exI [of _ ?s] exI [of _ "\<lparr>shared = q\<lparr>dialled := dialled q + 1\<rparr>, locked = None, tasks = [Finished, Using c', Finished]\<rparr>"])
      (simp add: q_def p_def)
qed

end
