(* ===== verification/Client_Props.thy ===== *)
theory Client_Props imports Client_Laws Pool_Props begin

text \<open>
  The properties of the client: what a command sends and returns, how a new connection is introduced,
  and how replies become results.
\<close>

section \<open>Samples\<close>

text \<open>A client with one idle connection, whose peer sends the same bytes for whatever it gets.\<close>

definition sample_peer :: "bytes \<Rightarrow> tcp" where
  "sample_peer back = (sample_tcp [])\<lparr>server := (\<lambda>_ _. [(0, Data back)])\<rparr>"

definition sample_client :: "tcp \<Rightarrow> tcp Client" where
  "sample_client t =
    \<lparr>client_pool = sample_pool 1 [\<lparr>pc_conn = connection_new t, used_at = 0\<rparr>],
     client_opts = ClientOptions_default\<rparr>"

lemma sample_peer_simps [simp]:
  "ready (sample_peer bs)" "outbound (sample_peer bs) = []"
  "server (sample_peer bs) = (\<lambda>_ _. [(0, Data bs)])"
  by (simp_all add: sample_peer_def sample_tcp_def ready_def)

lemma sample_served:
  "ready t \<Longrightarrow> data_only (server t (outbound t) new) \<Longrightarrow> stream_bytes (server t (outbound t) new) = back \<Longrightarrow>
    served sample_env (sample_client t) t new back"
  by (simp add: served_def serving_def Let_def sample_client_def answers_def connection_new_def
      sample_opts_def PoolOptions_default_def)

lemma fits_sample_string: "\<forall>c \<in> set s. of_char c < (128 :: nat) \<Longrightarrow> length s \<le> 1000 \<Longrightarrow>
    fits sample_env (VBulkString s)"
  by (simp add: utf8_valid_ascii can_reserve_sample)

section \<open>Commands\<close>

text \<open>
  C4. A command on a client whose youngest idle connection works sends exactly the bytes of its
  arguments, returns the reply the peer gives (a nil reply as the error \<open>Nil\<close>), and puts the
  connection back: the client is as able to serve the next command as before, with the same permits
  and the same number of idle connections.
\<close>

theorem command_delivers_reply:
  assumes "served E cl t (resp_command args) (encode_value v)" and "fits E v"
  shows "\<exists>cl' t'. process_cmd E tcp_net args cl = (as_result v, cl') \<and> serving cl' t' \<and>
    outbound t' = outbound t @ resp_command args \<and> server t' = server t \<and>
    permits (client_pool cl') = permits (client_pool cl) \<and>
    length (idle (client_pool cl')) = length (idle (client_pool cl))"
  using process_cmd_serving [OF assms(1) wire_reply_value [OF assms(2)]] by blast

theorem command_delivers_reply_witness:
  "\<exists>cl' t'. process_cmd sample_env tcp_net [''PING''] (sample_client (sample_peer (''+OK'' @ CRLF))) =
      (Ok (VStatus ''OK''), cl') \<and> serving cl' t' \<and> outbound t' = resp_command [''PING'']"
  using command_delivers_reply [of sample_env "sample_client (sample_peer (''+OK'' @ CRLF))"
      "sample_peer (''+OK'' @ CRLF)" "[''PING'']" "VStatus ''OK''", OF sample_served fits_OK] by auto

text \<open>
  C12. The first command of a new client: one connection is dialled; AUTH goes out when there is a
  password and SELECT when the database index is positive, each answered before the command itself
  is sent; then the command delivers its reply, and all permits of the pool are free.
\<close>

theorem new_client_introduces_itself:
  assumes "net (addr o') 0 = Some (d, Ok t)" "d \<le> co_dial_timeout o'" and "ready t"
    and "itoa_decimal E" "0 < co_pool_size o'"
    and "welcomes (co_read_timeout o') (server t) (greeting (password o') (db o'))"
    and "answers (co_read_timeout o') (server t)
           (outbound t @ concat (map resp_command (greeting (password o') (db o'))))
           (resp_command args) (encode_value v)"
    and "fits E v"
  shows "\<exists>cl' t'. process_cmd E tcp_net args (Client_new E tcp_net net o') = (as_result v, cl') \<and>
    serving cl' t' \<and> permits (client_pool cl') = co_pool_size o' \<and>
    outbound t' = outbound t @ concat (map resp_command (greeting (password o') (db o') @ [args]))"
proof -
  have "\<exists>cl' t'. process_cmd E tcp_net args (Client_new E tcp_net net o') = (as_result v, cl') \<and>
    serving cl' t' \<and> server t' = server t \<and> permits (client_pool cl') = co_pool_size o' \<and>
    outbound t' = outbound t @ concat (map resp_command (greeting (password o') (db o') @ [args]))"
    using new_client_command [of net o' d t E args "encode_value v" "as_result v"] assms
      wire_reply_value [OF assms(8)] by simp
  then show ?thesis by blast
qed

theorem new_client_introduces_itself_witness:
  "\<exists>cl' t'. process_cmd sample_env tcp_net [''PING'']
      (Client_new sample_env tcp_net (\<lambda>_ _. Some (5, Ok (sample_peer (''+OK'' @ CRLF))))
        (ClientOptions_default\<lparr>password := Some ''pw'', db := 2\<rparr>)) = (Ok (VStatus ''OK''), cl') \<and>
    serving cl' t' \<and>
    outbound t' = resp_command [''AUTH'', ''pw''] @ resp_command [''SELECT'', ''2''] @ resp_command [''PING'']"
proof -
  define o' where "o' = ClientOptions_default\<lparr>password := Some ''pw'', db := 2\<rparr>"
  have o: "password o' = Some ''pw''" "db o' = 2" "co_read_timeout o' = None" "co_pool_size o' = 10"
    "co_dial_timeout o' = from_secs 5"
    by (simp_all add: o'_def ClientOptions_default_def)
  have "show_int 2 = ''2''" by (simp add: show_int_def)
  then show ?thesis
    using new_client_introduces_itself [of "\<lambda>_ _. Some (5, Ok (sample_peer (''+OK'' @ CRLF)))" o' 5
        "sample_peer (''+OK'' @ CRLF)" sample_env "[''PING'']" "VStatus ''OK''"] fits_OK [of sample_env] o
    by (auto simp: greeting_def welcomes_def answers_def from_secs_def o'_def [symmetric])
qed

text \<open>
  C29. Whatever the peer sends, a value that a command returns is well-formed, and it is never nil:
  a nil reply is always the error \<open>Nil\<close>, which is the only case the methods turn into \<open>None\<close>.
\<close>

theorem command_values_well_formed:
  assumes "process_cmd E N args cl = (Ok v, cl')"
  shows "wf_Value v \<and> v \<noteq> VNil"
  using assms by (rule process_cmd_wf)

theorem command_values_well_formed_witness: "wf_Value (VStatus ''OK'') \<and> VStatus ''OK'' \<noteq> VNil"
proof -
  obtain cl' where "process_cmd sample_env tcp_net [''PING''] (sample_client (sample_peer (''+OK'' @ CRLF))) =
      (Ok (VStatus ''OK''), cl')"
    using process_cmd_serving [OF sample_served wire_reply_value [OF fits_OK],
        of "sample_peer (''+OK'' @ CRLF)" "[''PING'']"] by auto
  then show ?thesis by (rule command_values_well_formed)
qed

text \<open>What \<open>get\<close> makes of a reply.\<close>

definition get_answer :: "Value \<Rightarrow> string option res" where
  "get_answer v =
    (case v of
       VNil \<Rightarrow> Ok None
     | VBulkString s \<Rightarrow> Ok (Some s)
     | VStatus s \<Rightarrow> Ok (Some s)
     | _ \<Rightarrow> Err (EOther ''expected string''))"

text \<open>
  C30. \<open>get\<close> end to end: GET with the key is sent; a bulk string comes back as \<open>Some\<close>, a nil reply as
  \<open>None\<close>, and a reply of another type is an error.
\<close>

theorem get_end_to_end:
  assumes "served E cl t (resp_command [''GET'', k]) (encode_value v)" and "fits E v"
  shows "\<exists>cl' t'. client_get E tcp_net k cl = (get_answer v, cl') \<and> serving cl' t' \<and>
    outbound t' = outbound t @ resp_command [''GET'', k]"
  using process_cmd_serving [OF assms(1) wire_reply_value [OF assms(2)]]
  by (cases v) (auto simp: client_get_def nil_reply_def get_answer_def opt_string_def as_string_def from_str_def)

theorem get_end_to_end_witness:
  "\<exists>cl' t'. client_get sample_env tcp_net ''k'' (sample_client (sample_peer (''$-1'' @ CRLF))) = (Ok None, cl') \<and>
    serving cl' t' \<and> outbound t' = resp_command [''GET'', ''k'']"
  using get_end_to_end [of sample_env "sample_client (sample_peer (''$-1'' @ CRLF))"
      "sample_peer (''$-1'' @ CRLF)" "''k''" VNil, OF sample_served] by (simp add: get_answer_def)

text \<open>
  C31. \<open>hget_all\<close> on an array reply: when the elements are pairs of strings it returns the map of
  these pairs, where a later one wins; when one of the pairs is not two strings it never returns, and
  spins for ever.
\<close>

theorem hget_all_result:
  assumes "process_cmd E N [''HGETALL'', k] cl = (Ok (VArray arr), cl')"
  shows "client_hget_all E N k cl =
    (case string_pairs arr of
       Some ps \<Rightarrow> (Ok (foldl (\<lambda>m (f, v). m(f \<mapsto> v)) Map.empty ps), cl')
     | None \<Rightarrow> (Hang, cl'))"
  using assms
  by (simp add: client_hget_all_def reply_def as_array_def as_string_map_pairs split: option.split)

theorem hget_all_result_witness:
  "\<exists>cl'. client_hget_all sample_env tcp_net ''k''
      (sample_client (sample_peer (encode_value (VArray [VBulkString ''f'', VNil])))) = (Hang, cl')"
proof -
  have "fits sample_env (VArray [VBulkString ''f'', VNil])"
    using fits_sample_string [of "''f''"] by (simp add: can_reserve_sample)
  from process_cmd_serving [OF sample_served wire_reply_value [OF this],
      of "sample_peer (encode_value (VArray [VBulkString ''f'', VNil]))" "[''HGETALL'', ''k'']"]
  obtain cl' where "process_cmd sample_env tcp_net [''HGETALL'', ''k'']
      (sample_client (sample_peer (encode_value (VArray [VBulkString ''f'', VNil])))) =
      (Ok (VArray [VBulkString ''f'', VNil]), cl')"
    by auto
  from hget_all_result [OF this] show ?thesis by auto
qed

text \<open>
  The index loop of \<open>array_to_z_vec\<close> computes the recursive specification: members and scores are
  taken two by two, and a neighbour that is not a string shifts the pairing by one.
\<close>

theorem z_vec_specification: "array_to_z_vec arr = z_pairs arr"
  by (rule array_to_z_vec_pairs)

section \<open>Timeouts\<close>

lemma sock_write_outcomes: "sock_write k ws bs = (r, x) \<Longrightarrow> r \<noteq> Hang \<and> r \<noteq> Panic"
  by (induction k ws bs arbitrary: r x rule: sock_write.induct)
    (auto split: write_event.splits if_splits prod.splits)

lemma tcp_write_all_outcomes: "tcp_write_all bs t = (r, u) \<Longrightarrow> r \<noteq> Hang \<and> r \<noteq> Panic"
  using sock_write_outcomes by (fastforce simp: tcp_write_all_def split: prod.splits)

text \<open>
  C32. With a read and a write timeout set, a command never waits for ever on its connection, however
  the peer behaves: the exchange comes to an end.
\<close>

theorem timed_exchange_ends:
  assumes "read_timeout c = Some r" "write_timeout c = Some w"
  shows "fst (roundtrip E tcp_net args c) \<noteq> Pending \<and> fst (roundtrip E tcp_net args c) \<noteq> Hang"
proof -
  obtain q c1 where q: "conn_write_all tcp_net (append_args E [] args) c = (q, c1)" by fastforce
  have w: "q \<noteq> Pending \<and> q \<noteq> Hang \<and> read_timeout c1 = Some r"
  proof -
    obtain a s where a: "io_timeout tcp_net w (tcp_write_all (append_args E [] args)) (stream c) = (a, s)"
      by fastforce
    have "a \<noteq> Pending" using a by (rule io_timeout_not_pending)
    moreover have "a \<noteq> Hang"
      using a tcp_write_all_outcomes by (fastforce simp: io_timeout_def split: prod.splits if_splits)
    ultimately show ?thesis
      using q a assms by (cases a) (auto simp: conn_write_all_def)
  qed
  have p: "fst (conn_parse_reply E tcp_net c1) \<noteq> Pending \<and> fst (conn_parse_reply E tcp_net c1) \<noteq> Hang"
  proof -
    obtain f u where f: "io_timeout tcp_net r (parse_reply E tcp_net) (stream c1) = (f, u)" by fastforce
    obtain g v where g: "parse_reply E tcp_net ((stream c1)\<lparr>deadline := Some r\<rparr>) = (g, v)" by fastforce
    have "g \<noteq> Hang" using tcp_io.parse_reply_no_hang [of E "(stream c1)\<lparr>deadline := Some r\<rparr>"] g by simp
    then have "f \<noteq> Hang" using f g by (auto simp: io_timeout_def split: if_splits)
    moreover have "f \<noteq> Pending" using f by (rule io_timeout_not_pending)
    ultimately show ?thesis using w f by (simp add: conn_parse_reply_def)
  qed
  show ?thesis using w p by (cases q) (simp_all add: roundtrip_def q)
qed

theorem timed_exchange_ends_witness:
  "fst (roundtrip sample_env tcp_net [''PING''] (set_write_timeout (Some 7) (set_read_timeout (Some 9) sample_conn))) \<noteq> Pending \<and>
   fst (roundtrip sample_env tcp_net [''PING''] (set_write_timeout (Some 7) (set_read_timeout (Some 9) sample_conn))) \<noteq> Hang"
  by (rule timed_exchange_ends) (simp_all add: set_read_timeout_def set_write_timeout_def)

end
