(* ===== verification/Feature_Props.thy ===== *)
theory Feature_Props imports Concurrent_Client PubSub Script Sentinel Client_Props begin

text \<open>
  The properties of what is built on the client: pipelines, transactions, scripts, subscriptions and
  the lookup of the master through the sentinels; and the refinement of a server by all of it.
\<close>

section \<open>Pipelines\<close>

text \<open>
  C10. A pipeline on a working connection sends its commands in one piece in the order they were
  queued and is empty afterwards. When the server answers every command with a value, it returns
  exactly one reply per command in that order, with the connection back in the pool. When an answer
  is an error or nil, it returns the first of these as its failure and no reply at all.
\<close>

theorem pipeline_replies_in_order:
  assumes "pl_cmds p \<noteq> []" and "length rs = length (pl_cmds p)" and "\<forall>r \<in> set rs. sendable E r"
    and "served E (pl_client p) t (concat (map resp_command (pl_cmds p))) (concat (map encode_answer rs))"
  shows "\<exists>p'. pipeline_execute E tcp_net p = (batch_result rs, p') \<and> pl_cmds p' = [] \<and>
    (\<forall>vs. rs = map Inr vs \<and> VNil \<notin> set vs \<longrightarrow> batch_result rs = Ok vs \<and>
      (\<exists>t'. serving (pl_client p') t' \<and> outbound t' = outbound t @ concat (map resp_command (pl_cmds p)))) \<and>
    (\<forall>vs r e after. rs = map Inr vs @ r # after \<and> VNil \<notin> set vs \<and> answer_result r = Err e \<longrightarrow>
      batch_result rs = Err e)"
proof -
  obtain p' where p': "pipeline_execute E tcp_net p = (batch_result rs, p')" "pl_cmds p' = []"
    using pipeline_execute_result [OF assms] by blast
  have "batch_result rs = Ok vs \<and>
      (\<exists>t'. serving (pl_client p') t' \<and> outbound t' = outbound t @ concat (map resp_command (pl_cmds p)))"
    if vs: "rs = map Inr vs" "VNil \<notin> set vs" for vs
  proof -
    have f: "\<forall>v \<in> set vs. fits E v \<and> v \<noteq> VNil" using assms(3) vs by auto
    have "served E (pl_client p) t (concat (map resp_command (pl_cmds p))) (concat (map encode_value vs))"
      using assms(4) vs(1) by (simp add: comp_def)
    from pipeline_execute_ok [OF assms(1) this wire_replies [OF f]] assms(2) vs(1) p'(1)
    show ?thesis by auto
  qed
  moreover have "batch_result rs = Err e"
    if "rs = map Inr vs @ r # after" "VNil \<notin> set vs" "answer_result r = Err e" for vs r e after
    using batch_result_failure [of vs r e after] that by (metis (no_types))
  ultimately show ?thesis using p' by blast
qed

theorem pipeline_replies_in_order_witness:
  "(\<exists>p' t'. pipeline_execute sample_env tcp_net
      (pipeline_get ''k'' (pipeline_set ''k'' ''v'' (pipeline_new (sample_client (sample_peer
        (''+OK'' @ CRLF @ ''$1'' @ CRLF @ ''v'' @ CRLF)))))) = (Ok [VStatus ''OK'', VBulkString ''v''], p') \<and>
    pl_cmds p' = [] \<and> serving (pl_client p') t' \<and>
    outbound t' = resp_command [''SET'', ''k'', ''v''] @ resp_command [''GET'', ''k''])"
proof -
  define p where "p = pipeline_get ''k'' (pipeline_set ''k'' ''v'' (pipeline_new (sample_client (sample_peer
        (''+OK'' @ CRLF @ ''$1'' @ CRLF @ ''v'' @ CRLF)))))"
  have c: "pl_cmds p = [[''SET'', ''k'', ''v''], [''GET'', ''k'']]"
    "pl_client p = sample_client (sample_peer (''+OK'' @ CRLF @ ''$1'' @ CRLF @ ''v'' @ CRLF))"
    by (simp_all add: p_def pipeline_get_def pipeline_set_def pipeline_new_def pipeline_cmd_def)
  let ?vs = "[VStatus ''OK'', VBulkString ''v'']"
  have f: "\<forall>r \<in> set (map Inr ?vs). sendable sample_env r"
    using fits_sample_string [of "''v''"] fits_OK by simp
  have s: "served sample_env (pl_client p) (sample_peer (''+OK'' @ CRLF @ ''$1'' @ CRLF @ ''v'' @ CRLF))
      (concat (map resp_command (pl_cmds p))) (concat (map encode_answer (map Inr ?vs)))"
    unfolding c by (rule sample_served) (simp_all add: resp_bulk_def)
  have l: "pl_cmds p \<noteq> []" "length (map Inr ?vs :: (string + Value) list) = length (pl_cmds p)" by (simp_all add: c)
  obtain p' where p': "pipeline_execute sample_env tcp_net p = (batch_result (map Inr ?vs), p')" "pl_cmds p' = []"
    "\<forall>vs. map Inr ?vs = (map Inr vs :: (string + Value) list) \<and> VNil \<notin> set vs \<longrightarrow>
      batch_result (map Inr ?vs) = Ok vs \<and> (\<exists>t'. serving (pl_client p') t' \<and>
        outbound t' = outbound (sample_peer (''+OK'' @ CRLF @ ''$1'' @ CRLF @ ''v'' @ CRLF)) @
          concat (map resp_command (pl_cmds p)))"
    using pipeline_replies_in_order [OF l f s] by blast
  then show ?thesis unfolding p_def [symmetric] using spec [OF p'(3), of ?vs] by (auto simp: c)
qed

text \<open>
  C33. A nil reply in a pipeline (a GET of a key that does not exist) is an error of the whole batch:
  the replies before it are lost, and those after it stay unread on the connection.
\<close>

theorem pipeline_nil_aborts:
  assumes "ready (stream c)" "itoa_decimal E"
    and "answers (read_timeout c) (server (stream c)) (outbound (stream c))
           (concat (map resp_command cmds)) (concat (map encode_value (before @ VNil # after)))"
    and "\<forall>v \<in> set before. fits E v \<and> v \<noteq> VNil" and "length before < length cmds"
  shows "\<exists>s. run_batch E tcp_net cmds c = (Err ENil, c\<lparr>stream := s\<rparr>) \<and>
    tcp_backlog s = concat (map encode_value after)"
proof -
  have a: "answers (read_timeout c) (server (stream c)) (outbound (stream c))
      (concat (map resp_command cmds))
      (concat (map encode_value before) @ encode_value VNil @ concat (map encode_value after))"
    using assms(3) by simp
  have "wire_reply E (encode_value VNil) (Err ENil)" using wire_reply_value [of E VNil] by simp
  from run_batch_error [OF assms(1,2) a wire_replies [OF assms(4)] assms(5) this] show ?thesis .
qed

theorem pipeline_nil_aborts_witness:
  "\<exists>s. run_batch sample_env tcp_net [[''GET'', ''a''], [''GET'', ''b'']]
        (connection_new (sample_peer (''$-1'' @ CRLF @ ''+two'' @ CRLF))) =
      (Err ENil, (connection_new (sample_peer (''$-1'' @ CRLF @ ''+two'' @ CRLF)))\<lparr>stream := s\<rparr>) \<and>
    tcp_backlog s = ''+two'' @ CRLF"
  using pipeline_nil_aborts [of "connection_new (sample_peer (''$-1'' @ CRLF @ ''+two'' @ CRLF))" sample_env
      "[[''GET'', ''a''], [''GET'', ''b'']]" "[]" "[VStatus ''two'']"]
  by (simp add: connection_new_def answers_def)

section \<open>Transactions\<close>

text \<open>
  C11. A transaction sends MULTI, the queued commands and EXEC in one piece, drops the OK and one
  QUEUED reply per command, and returns the elements of the reply to EXEC; nil or an empty array
  there is the error \<open>TxFailed\<close>. The transaction is empty afterwards and the connection back.
\<close>

theorem transaction_result:
  assumes "mu_cmds m \<noteq> []" and "length queued = length (mu_cmds m)"
    and "\<forall>q \<in> set (ok # queued). fits E q \<and> q \<noteq> VNil" and "fits E v"
    and "served E (mu_client m) t (concat (map resp_command ([''MULTI''] # mu_cmds m @ [[''EXEC'']])))
           (encode_value ok @ concat (map encode_value queued) @ encode_value v)"
  shows "\<exists>m' t'. multi_exec E tcp_net m = (exec_answer E v, m') \<and> mu_cmds m' = [] \<and>
    serving (mu_client m') t' \<and>
    outbound t' = outbound t @ concat (map resp_command ([''MULTI''] # mu_cmds m @ [[''EXEC'']]))"
proof -
  have ok: "wire_reply E (encode_value ok) (Ok ok)"
    using wire_reply_value [of E ok] assms(3) by (cases ok) auto
  have q: "list_all2 (\<lambda>enc v. wire_reply E enc (Ok v)) (map encode_value queued) queued"
    using assms(3) by (intro wire_replies) simp
  show ?thesis
    using multi_exec_ok [OF assms(1,5) ok q assms(2) wire_reply_value [OF assms(4)]] by (auto simp: exec_result_value)
qed

theorem transaction_result_witness:
  "\<exists>m' t'. multi_exec sample_env tcp_net (multi_cmd [''INCR'', ''n''] (multi_new (sample_client (sample_peer
        (''+OK'' @ CRLF @ ''+QUEUED'' @ CRLF @ ''$-1'' @ CRLF))))) = (Err ETxFailed, m') \<and>
    mu_cmds m' = [] \<and> serving (mu_client m') t' \<and>
    outbound t' = resp_command [''MULTI''] @ resp_command [''INCR'', ''n''] @ resp_command [''EXEC'']"
  using transaction_result [of "multi_cmd [''INCR'', ''n''] (multi_new (sample_client (sample_peer
      (''+OK'' @ CRLF @ ''+QUEUED'' @ CRLF @ ''$-1'' @ CRLF))))" "[VStatus ''QUEUED'']" "VStatus ''OK''"
      sample_env VNil "sample_peer (''+OK'' @ CRLF @ ''+QUEUED'' @ CRLF @ ''$-1'' @ CRLF)"]
    sample_served [of "sample_peer (''+OK'' @ CRLF @ ''+QUEUED'' @ CRLF @ ''$-1'' @ CRLF)"
      "resp_command [''MULTI''] @ resp_command [''INCR'', ''n''] @ resp_command [''EXEC'']"]
  by (simp add: multi_cmd_def multi_new_def utf8_valid_ascii line_text_def MAX_LINE_LEN_def)

section \<open>The client as a remote control\<close>

text \<open>A server with keys and values, for the instance.\<close>

definition kv :: "(string \<rightharpoonup> string) machine" where
  "kv m args =
    (if length args = 3 \<and> hd args = ''SET'' then (Inr (VStatus ''OK''), m(args ! 1 \<mapsto> args ! 2))
     else if length args = 2 \<and> hd args = ''GET''
     then (Inr (case m (args ! 1) of Some v \<Rightarrow> VBulkString v | None \<Rightarrow> VNil), m)
     else (Inl ''ERR unknown command'', m))"

text \<open>
  C2. The client refines direct use of the server, on a working connection whose peer answers each
  operation completely and in time. Whatever state machine the peer runs, a sequence of single
  commands, pipelines and transactions through the client gives the results of the same operations on
  the machine: a single command its value, nil or error; a pipeline its values, or its first error or
  nil; a transaction its values. A pipeline with an error or nil can only be the last operation,
  since it leaves replies unread, and transactions with a failed command are not covered. Without
  such a pipeline, the commands go out in order, nothing else does, and the client stays able to serve.
\<close>

theorem client_refines_server:
  assumes "itoa_decimal E" "serving cl t"
    and "implements E (opt_read_timeout (opts (client_pool cl))) (server t) step s (outbound t) ops"
  shows "\<exists>cl'. perform_all E tcp_net ops cl = (fst (direct_all E step ops s), cl') \<and>
    (all_clean E step s ops \<longrightarrow> (\<exists>t'. serving cl' t' \<and> outbound t' = outbound t @ concat (map op_bytes ops)))"
  using assms by (rule perform_all_refines)

definition kv_peer :: tcp where
  "kv_peer = (sample_tcp [])\<lparr>server := (\<lambda>sent new. [(0, Data
    (if sent = [] then ''+OK'' @ CRLF
     else if length sent = 27 then ''$1'' @ CRLF @ ''v'' @ CRLF
     else if length sent = 47 then ''+OK'' @ CRLF @ ''+QUEUED'' @ CRLF @ ''*1'' @ CRLF @ ''$1'' @ CRLF @ ''v'' @ CRLF
     else ''$-1'' @ CRLF @ ''$1'' @ CRLF @ ''v'' @ CRLF))])\<rparr>"

theorem client_refines_server_witness:
  "\<exists>cl'. perform_all sample_env tcp_net
      [Single [''SET'', ''k'', ''v''], Batch [[''GET'', ''k'']], Atomic [[''GET'', ''k'']],
       Batch [[''GET'', ''x''], [''GET'', ''k'']]] (sample_client kv_peer) =
    ([One (Ok (VStatus ''OK'')), Many (Ok [VBulkString ''v'']), Many (Ok [VBulkString ''v'']), Many (Err ENil)], cl')"
proof -
  define ops where "ops = [Single [''SET'', ''k'', ''v''], Batch [[''GET'', ''k'']], Atomic [[''GET'', ''k'']],
       Batch [[''GET'', ''x''], [''GET'', ''k'']]]"
  have k: "ready kv_peer" "outbound kv_peer = []" by (simp_all add: kv_peer_def ready_def sample_tcp_def)
  have s: "serving (sample_client kv_peer) kv_peer"
    using sample_served [OF k(1), of "[]"] k
    by (simp add: served_def serving_def Let_def sample_client_def answers_def connection_new_def
      sample_opts_def PoolOptions_default_def)
  have d: "direct_all sample_env kv ops Map.empty =
      ([One (Ok (VStatus ''OK'')), Many (Ok [VBulkString ''v'']), Many (Ok [VBulkString ''v'']), Many (Err ENil)],
       [''k'' \<mapsto> ''v''])"
    by (simp add: ops_def kv_def values_of_def List.map_filter_simps)
  have limit: "opt_read_timeout (opts (client_pool (sample_client kv_peer))) = None"
    by (simp add: sample_client_def sample_opts_def PoolOptions_default_def)
  have o: "outbound (sample_tcp []) = []" by (simp add: sample_tcp_def)
  have "show_nat (Suc (Suc (Suc 0))) = ''3''" "show_nat (Suc (Suc (Suc (Suc 0)))) = ''4''"
    "show_nat (Suc (Suc (Suc (Suc (Suc 0))))) = ''5''" by code_simp+
  then have "implements sample_env (opt_read_timeout (opts (client_pool (sample_client kv_peer)))) (server kv_peer)
      kv Map.empty (outbound kv_peer) ops"
    using fits_sample_string [of "''v''"] fits_OK unfolding limit
    by (simp add: o ops_def k kv_def values_of_def List.map_filter_simps plain_def resp_command_def resp_bulk_def
        answers_def kv_peer_def can_reserve_sample)
  from client_refines_server [OF itoa_decimal_sample s this] show ?thesis
    unfolding ops_def [symmetric] d by auto
qed

section \<open>Scripts\<close>

lemma served_again:
  assumes "served E cl t new back" "serving cl' t'" "opts (client_pool cl') = opts (client_pool cl)"
    and "answers (opt_read_timeout (opts (client_pool cl))) (server t') (outbound t') new' back'"
  shows "served E cl' t' new' back'"
  using assms by (simp add: served_def)

text \<open>
  C25. A script the server does not know is run by its source: EVALSHA with the digest goes out
  first, and on an error that contains NOSCRIPT, EVAL with the source and the same keys and
  arguments follows, whose reply is the result.
\<close>

theorem script_falls_back:
  assumes "served E cl t (resp_command (build_args ''EVALSHA'' (hash sc) ks as)) (encode_error msg)"
    and "line_text msg" "utf8_valid msg" "str_contains msg ''NOSCRIPT''"
    and "answers (opt_read_timeout (opts (client_pool cl))) (server t)
           (outbound t @ resp_command (build_args ''EVALSHA'' (hash sc) ks as))
           (resp_command (build_args ''EVAL'' (src sc) ks as)) (encode_value v)"
    and "fits E v"
  shows "\<exists>cl' t'. script_run E tcp_net sc ks as cl = (as_result v, cl') \<and> serving cl' t' \<and>
    outbound t' = outbound t @ resp_command (build_args ''EVALSHA'' (hash sc) ks as) @
      resp_command (build_args ''EVAL'' (src sc) ks as)"
proof -
  have m: "utf8_lossy msg = msg" using assms(3) by (rule utf8_lossy_id)
  have "msg \<noteq> ''line too long''"
  proof
    assume "msg = ''line too long''"
    then obtain l r where "''line too long'' = l @ ''NOSCRIPT'' @ r"
      using assms(4) by (auto simp: str_contains_iff)
    then have "CHR ''N'' \<in> set ''line too long''" by (metis in_set_conv_decomp append_Cons append.assoc)
    then show False by simp
  qed
  then have e: "wire_reply E (encode_error msg) (Err (ERedis (RedisError msg)))"
    using wire_reply_error [OF assms(2), of E] m by simp
  obtain cl1 t1 where 1: "process_cmd E tcp_net (build_args ''EVALSHA'' (hash sc) ks as) cl =
      (Err (ERedis (RedisError msg)), cl1)" "serving cl1 t1"
    "outbound t1 = outbound t @ resp_command (build_args ''EVALSHA'' (hash sc) ks as)"
    "server t1 = server t" "opts (client_pool cl1) = opts (client_pool cl)"
    using process_cmd_serving [OF assms(1) e] by blast
  have s: "served E cl1 t1 (resp_command (build_args ''EVAL'' (src sc) ks as)) (encode_value v)"
    by (rule served_again [OF assms(1) 1(2,5)]) (use assms(5) 1(3,4) in simp)
  obtain cl2 t2 where 2: "process_cmd E tcp_net (build_args ''EVAL'' (src sc) ks as) cl1 = (as_result v, cl2)"
    "serving cl2 t2" "outbound t2 = outbound t1 @ resp_command (build_args ''EVAL'' (src sc) ks as)"
    using process_cmd_serving [OF s wire_reply_value [OF assms(6)]] by blast
  have "is_noscript (ERedis (RedisError msg))" using assms(4) by (simp add: is_noscript_def)
  then show ?thesis using 1 2 by (auto simp: script_run_def)
qed

definition script_peer :: tcp where
  "script_peer = (sample_tcp [])\<lparr>server := (\<lambda>sent _.
     [(0, Data (if sent = [] then encode_error ''NOSCRIPT unknown'' else '':7'' @ CRLF))])\<rparr>"

theorem script_falls_back_witness:
  "\<exists>cl' t'. script_run sample_env tcp_net (script_new sample_env ''return 7'') [''k''] [] (sample_client script_peer) =
      (Ok (VInt 7), cl') \<and> serving cl' t' \<and>
    outbound t' = resp_command (build_args ''EVALSHA'' (hash (script_new sample_env ''return 7'')) [''k''] []) @
      resp_command (build_args ''EVAL'' ''return 7'' [''k''] [])"
proof -
  define sc where "sc = script_new sample_env ''return 7''"
  have src: "src sc = ''return 7''" by (simp add: sc_def script_new_def)
  define h where "h = hash sc"
  have p: "ready script_peer" "outbound script_peer = []"
    "server script_peer sent new =
      [(0, Data (if sent = [] then encode_error ''NOSCRIPT unknown'' else '':7'' @ CRLF))]" for sent new
    by (simp_all add: script_peer_def sample_tcp_def ready_def)
  have s: "served sample_env (sample_client script_peer) script_peer new (encode_error ''NOSCRIPT unknown'')" for new
    by (rule sample_served [OF p(1)]) (simp_all add: p encode_error_def)
  have m: "line_text ''NOSCRIPT unknown''" "utf8_valid ''NOSCRIPT unknown''"
    using utf8_valid_ascii [of "''NOSCRIPT unknown''"] by (simp_all add: line_text_def MAX_LINE_LEN_def)
  have c: "str_contains ''NOSCRIPT unknown'' ''NOSCRIPT''"
    by (simp add: str_contains_iff) (rule exI [of _ "[]"], simp)
  have "show_int 7 = ''7''" unfolding show_int_def by code_simp
  then have a: "answers (opt_read_timeout (opts (client_pool (sample_client script_peer)))) (server script_peer)
      (outbound script_peer @ resp_command (build_args ''EVALSHA'' (hash sc) [''k''] [])) new
      (encode_value (VInt 7))" for new
    by (simp add: answers_def p resp_command_def sample_client_def sample_opts_def PoolOptions_default_def)
  have "fits sample_env (VInt 7)" by (simp add: in_i64_def)
  from script_falls_back [OF s m c a this] show ?thesis
    using p(2) src by (simp add: sc_def [symmetric])
qed

section \<open>Subscriptions\<close>

text \<open>
  C28. The first subscription takes a connection out of the pool for good: SUBSCRIBE goes out on it,
  the pool has one idle connection less, and its permit is free again at once.
\<close>

theorem subscribe_takes_connection:
  assumes "ps_conn s = None" "serving (ps_client s) t" "itoa_decimal E"
  shows "\<exists>s' c. subscribe E tcp_net channels s = (Ok (), s') \<and> ps_conn s' = Some c \<and>
    outbound (stream c) = outbound t @ resp_command (''SUBSCRIBE'' # channels) \<and>
    permits (client_pool (ps_client s')) = permits (client_pool (ps_client s)) \<and>
    Suc (length (idle (client_pool (ps_client s')))) = length (idle (client_pool (ps_client s)))"
proof -
  define p where "p = client_pool (ps_client s)"
  obtain older pc where p: "\<not> closed p" "0 < permits p" "idle p = older @ [pc]"
    "stream (pc_conn pc) = t" "\<not> expired p pc" "ready t"
    using assms(2) by (auto simp: serving_def Let_def p_def)
  define c where "c = prepare (opts p) (pc_conn pc)"
  have "usable p = pc # rev older" using p(3,5) by (simp add: usable_def)
  then have g: "pool_get p = (Ok c, p\<lparr>permits := permits p - 1, idle := older\<rparr>)"
    using pool_get_result [OF p(1,2)] by (simp add: c_def)
  define bs where "bs = resp_command (''SUBSCRIBE'' # channels)"
  have w: "conn_write_all tcp_net bs c = (Ok (), c\<lparr>stream := (stream c)\<lparr>outbound := outbound (stream c) @ bs,
      inbound := server (stream c) (outbound (stream c)) bs\<rparr>\<rparr>)"
    by (rule conn_write_ready) (simp_all add: c_def p(4,6) bs_def resp_command_def)
  have st: "stream c = t" using p(4) by (simp add: c_def)
  show ?thesis
    using assms(1,3) g w st p(2,3)
    by (simp add: subscribe_def send_sub_cmd_def ensure_conn_def guard_remove_def p_def [symmetric]
        append_args_command bs_def [symmetric] release_def)
qed

theorem subscribe_takes_connection_witness:
  "\<exists>s' c. subscribe sample_env tcp_net [''news''] (pubsub_new (sample_client (sample_peer []))) = (Ok (), s') \<and>
    ps_conn s' = Some c \<and> outbound (stream c) = resp_command [''SUBSCRIBE'', ''news''] \<and>
    permits (client_pool (ps_client s')) = 1 \<and> idle (client_pool (ps_client s')) = []"
proof -
  have "serving (sample_client (sample_peer [])) (sample_peer [])"
    by (simp add: serving_def Let_def sample_client_def connection_new_def)
  then show ?thesis
    using subscribe_takes_connection [of "pubsub_new (sample_client (sample_peer []))" "sample_peer []"
        sample_env "[''news'']"]
    by (simp add: pubsub_new_def) (simp add: sample_client_def)
qed

text \<open>The replies that carry a message.\<close>

fun message_value :: "PubSubMessage \<Rightarrow> Value" where
  "message_value (Subscription k ch n) = VArray [VBulkString k, VBulkString ch, VInt n]"
| "message_value (Message ch pl) = VArray [VBulkString ''message'', VBulkString ch, VBulkString pl]"
| "message_value (PMessage pat ch pl) =
    VArray [VBulkString ''pmessage'', VBulkString pat, VBulkString ch, VBulkString pl]"

fun known_message :: "PubSubMessage \<Rightarrow> bool" where
  "known_message (Subscription k ch n) =
    (k = ''subscribe'' \<or> k = ''unsubscribe'' \<or> k = ''psubscribe'' \<or> k = ''punsubscribe'')"
| "known_message _ = True"

lemma parse_message_value: "known_message m \<Longrightarrow> parse_message (message_value m) = Ok m"
  by (cases m) (auto simp: parse_message_def str_or_empty_def int_or_zero_def)

text \<open>
  C27. \<open>receive\<close> returns exactly the next message the server has pushed, whatever pieces it arrives in,
  and leaves the messages after it for the next call.
\<close>

theorem receive_delivers_message:
  assumes "ps_conn s = Some c" "steady (read_timeout c) sent f (stream c)" "deadline (stream c) = None"
    and "tcp_backlog (stream c) = encode_value (message_value m) @ rest"
    and "known_message m" "fits E (message_value m)"
  shows "\<exists>u. receive E tcp_net s = (Ok m, s\<lparr>ps_conn := Some (c\<lparr>stream := u\<rparr>)\<rparr>) \<and> tcp_backlog u = rest"
proof -
  have w: "wire_reply E (encode_value (message_value m)) (Ok (message_value m))"
    using wire_reply_value [OF assms(6)] by (cases m) auto
  from conn_parse_steady [OF assms(2-4) w] show ?thesis
    using assms(1) parse_message_value [OF assms(5)] by (auto simp: receive_def)
qed

theorem receive_delivers_message_witness:
  "\<exists>u. receive sample_env tcp_net ((pubsub_new (sample_client (sample_peer [])))\<lparr>ps_conn := Some
        (connection_new (sample_tcp [(4, Data (encode_value (message_value (Message ''a'' ''b'')) @ ''*''))]))\<rparr>) =
      (Ok (Message ''a'' ''b''), (pubsub_new (sample_client (sample_peer [])))\<lparr>ps_conn := Some
        ((connection_new (sample_tcp [(4, Data (encode_value (message_value (Message ''a'' ''b'')) @ ''*''))]))
          \<lparr>stream := u\<rparr>)\<rparr>) \<and> tcp_backlog u = ''*''"
proof -
  define m where "m = Message ''a'' ''b''"
  define c where "c = connection_new (sample_tcp [(4, Data (encode_value (message_value m) @ ''*''))])"
  have c: "steady (read_timeout c) [] (\<lambda>_ _. []) (stream c)" "deadline (stream c) = None"
    "tcp_backlog (stream c) = encode_value (message_value m) @ ''*''"
    by (simp_all add: c_def connection_new_def steady_def) (simp_all add: sample_tcp_def)
  have "fits sample_env (message_value m)" "known_message m"
    using fits_sample_string [of "''message''"] fits_sample_string [of "''a''"] fits_sample_string [of "''b''"]
    by (simp_all add: m_def can_reserve_sample)
  then show ?thesis
    using receive_delivers_message [of "(pubsub_new (sample_client (sample_peer [])))\<lparr>ps_conn := Some c\<rparr>" c,
        OF _ c] by (auto simp: c_def m_def)
qed

section \<open>Sentinels\<close>

lemma try_sentinels_skip:
  assumes "\<forall>k < length xs. returned (fst (ask_sentinel E N (net (i + k)) (fo_opts fc) (xs ! k))) \<and>
      master_of (fst (ask_sentinel E N (net (i + k)) (fo_opts fc) (xs ! k))) = None"
  shows "try_sentinels E N net i (xs @ ys) fc = try_sentinels E N net (i + length xs) ys fc"
  using assms
proof (induction xs arbitrary: i)
  case Nil
  then show ?case by simp
next
  case (Cons a xs)
  have "returned (fst (ask_sentinel E N (net i) (fo_opts fc) a))"
    "master_of (fst (ask_sentinel E N (net i) (fo_opts fc) a)) = None"
    using Cons.prems by (force dest: spec [of _ 0])+
  then have "try_sentinels E N net i ((a # xs) @ ys) fc = try_sentinels E N net (i + 1) (xs @ ys) fc"
    by (cases "fst (ask_sentinel E N (net i) (fo_opts fc) a)") simp_all
  also have "\<dots> = try_sentinels E N net (i + 1 + length xs) ys fc"
  proof (rule Cons.IH, intro allI impI)
    fix k
    assume "k < length xs"
    then show "returned (fst (ask_sentinel E N (net (i + 1 + k)) (fo_opts fc) (xs ! k))) \<and>
        master_of (fst (ask_sentinel E N (net (i + 1 + k)) (fo_opts fc) (xs ! k))) = None"
      using Cons.prems [rule_format, of "Suc k"] by simp
  qed
  finally show ?case by simp
qed

text \<open>
  C26. The sentinels are asked in the order of the options; those that cannot be reached or do not
  name a master are passed over, and the first that names one decides: its answer is returned and
  remembered, and the client is made for that address with the options of the failover client.
\<close>

theorem first_answering_sentinel_decides:
  assumes "sentinel_addrs (fo_opts fc) = xs @ a # ys"
    and "\<forall>k < length xs. returned (fst (ask_sentinel E N (net k) (fo_opts fc) (xs ! k))) \<and>
      master_of (fst (ask_sentinel E N (net k) (fo_opts fc) (xs ! k))) = None"
    and "master_of (fst (ask_sentinel E N (net (length xs)) (fo_opts fc) a)) = Some master"
  shows "get_master_addr E N net fc = (Ok master, fc\<lparr>master_addr := master\<rparr>) \<and>
    (\<exists>cl. get_client E N net fc = (Ok cl, fc\<lparr>master_addr := master\<rparr>) \<and>
      client_opts cl = master_options (fo_opts fc) master)"
proof -
  have "get_master_addr E N net fc = try_sentinels E N net (length xs) (a # ys) fc"
    using try_sentinels_skip [of xs E N net 0 fc "a # ys"] assms(1,2) by (simp add: get_master_addr_def)
  also have "\<dots> = (Ok master, fc\<lparr>master_addr := master\<rparr>)"
    using assms(3)
    by (cases "fst (ask_sentinel E N (net (length xs)) (fo_opts fc) a)") (simp_all add: master_of_def)
  finally show ?thesis by (simp add: get_client_def Client_new_def)
qed

lemma ask_unreachable:
  "fst (ask_sentinel E tcp_net (\<lambda>_ _. None) o' a) = Err ETimeout"
proof -
  define p where "p = client_pool (Client_new E tcp_net (\<lambda>_ _. None) (sentinel_options o' a))"
  have p: "\<not> closed p" "permits p = 1" "idle p = []" "init_conn (opts p) = None"
    "dial p n = Err ETimeout" for n
    by (simp_all add: p_def Client_new_def pool_new_def sentinel_options_def dial_tcp_def from_elapsed_def)
  have "fst (pool_get p) = Err ETimeout"
    using pool_get_result [of p] p by (simp add: usable_def pool_dial_def unwind_def)
  then have "fst (process_cmd E tcp_net args (Client_new E tcp_net (\<lambda>_ _. None) (sentinel_options o' a))) =
      Err ETimeout" for args
    by (cases "pool_get p") (simp add: process_cmd_def on_pool_def with_guard_def p_def)
  then show ?thesis by (simp add: ask_sentinel_def split: prod.split) (metis fst_conv)
qed

definition sentinel_peer :: tcp where
  "sentinel_peer = sample_peer (encode_value (VArray [VBulkString ''h'', VBulkString ''1'']))"

lemma ask_answering:
  "fst (ask_sentinel sample_env tcp_net (\<lambda>_ _. Some (0, Ok sentinel_peer)) FailoverOptions_default a) =
    Ok (VArray [VBulkString ''h'', VBulkString ''1''])"
proof -
  define v where "v = VArray [VBulkString ''h'', VBulkString ''1'']"
  define o' where "o' = sentinel_options FailoverOptions_default a"
  have o: "password o' = None" "db o' = 0" "co_pool_size o' = 1" "co_read_timeout o' = None"
    by (simp_all add: o'_def sentinel_options_def FailoverOptions_default_def)
  have "fits sample_env v"
    using fits_sample_string [of "''h''"] fits_sample_string [of "''1''"] by (simp add: v_def can_reserve_sample)
  moreover have "encode_value v \<noteq> []" by (simp add: v_def)
  ultimately have "\<exists>cl'. process_cmd sample_env tcp_net args
      (Client_new sample_env tcp_net (\<lambda>_ _. Some (0, Ok sentinel_peer)) o') = (Ok v, cl')" for args
    using new_client_command [of "\<lambda>_ _. Some (0, Ok sentinel_peer)" o' 0 sentinel_peer sample_env args
        "encode_value v" "Ok v"] o wire_reply_value [of sample_env v]
    by (auto simp: greeting_def welcomes_def answers_def sentinel_peer_def v_def)
  then have "fst (process_cmd sample_env tcp_net args
      (Client_new sample_env tcp_net (\<lambda>_ _. Some (0, Ok sentinel_peer)) o')) = Ok v" for args
    by (metis fst_conv)
  then show ?thesis
    by (simp add: ask_sentinel_def o'_def [symmetric] v_def [symmetric] split: prod.split) (metis fst_conv)
qed

theorem first_answering_sentinel_decides_witness:
  "get_master_addr sample_env tcp_net (\<lambda>i. if i = 0 then (\<lambda>_ _. None) else (\<lambda>_ _. Some (0, Ok sentinel_peer)))
      (failover_new (FailoverOptions_default\<lparr>sentinel_addrs := [''down'', ''up'']\<rparr>)) =
    (Ok ''h:1'', (failover_new (FailoverOptions_default\<lparr>sentinel_addrs := [''down'', ''up'']\<rparr>))\<lparr>master_addr := ''h:1''\<rparr>)"
proof -
  define o' where "o' = FailoverOptions_default\<lparr>sentinel_addrs := [''down'', ''up'']\<rparr>"
  have "ask_sentinel E N net o' a = ask_sentinel E N net FailoverOptions_default a"
    for E :: env and N :: "tcp transport" and net a
    by (simp add: ask_sentinel_def o'_def sentinel_options_def)
  then show ?thesis
    using first_answering_sentinel_decides [of "failover_new o'" "[''down'']" "''up''" "[]" sample_env tcp_net
        "\<lambda>i. if i = 0 then (\<lambda>_ _. None) else (\<lambda>_ _. Some (0, Ok sentinel_peer))" "''h:1''"]
      ask_unreachable ask_answering
    by (simp add: failover_new_def master_of_def o'_def [symmetric]) (simp add: o'_def)
qed

section \<open>Many commands at once\<close>

text \<open>
  C3. Concurrent commands do not mix, as long as nobody gives one up. Any number of callers run
  commands through one pool, cut at their await points, in any interleaving: while one waits for its
  reply, the others write, read, call \<open>get\<close> and \<open>close\<close>, cancel these calls, drop guards, evict and dial.
  Assume that a caller keeps its guard while it awaits a reply, that there is neither AUTH nor SELECT,
  and that the peer of every connection runs the machine \<open>step\<close> from \<open>q0\<close> and answers in time. Then on
  each connection the results that the callers got are, in order, the answers of the machine to
  exactly their commands, and every connection, idle or in use, has sent exactly the commands logged
  for it, and the one whose reply is awaited.
\<close>

theorem concurrent_commands_stay_apart:
  assumes "itoa_decimal E" "init_conn o' = None"
    and "numbered_servers E d (opt_read_timeout o') nid step q0"
    and "session E nid (sys_new d o') s log busy"
  shows "results_on n log = map answer_result (fst (run_machine step q0 (commands_on n log))) \<and>
    (\<forall>c \<in> all_conns s. let k = nid (server (stream c)) in
      outbound (stream c) = concat (map resp_command
        (commands_on k log @ (case busy k of None \<Rightarrow> [] | Some args \<Rightarrow> [args]))))"
proof -
  have "session_inv E d (opt_read_timeout o') nid step q0 s log busy"
    using session_holds [OF assms(4,1,2,3)] by blast
  then show ?thesis
    by (auto simp: session_inv_def in_step_def resting_def awaiting_def Let_def split: option.splits)
qed

text \<open>Peers that answer with the last digit of the number of bytes they have had before.\<close>

definition counting_peer :: "nat \<Rightarrow> peer" where
  "counting_peer n sent new = [(n, Data (encode_value (VInt (int (length sent mod 10)))))]"

definition counting_dial :: "nat \<Rightarrow> tcp res" where
  "counting_dial n = Ok ((sample_tcp [])\<lparr>server := counting_peer n\<rparr>)"

definition counting_machine :: "nat machine" where
  "counting_machine q args = (Inr (VInt (int (q mod 10))), q + length (resp_command args))"

definition first_delay :: "peer \<Rightarrow> nat" where
  "first_delay f = fst (hd (f [] []))"

lemma counting_state: "state_after counting_machine q cmds = q + length (concat (map resp_command cmds))"
  by (induction cmds arbitrary: q) (simp_all add: state_after_def counting_machine_def case_prod_beta)

lemma counting_servers: "numbered_servers sample_env counting_dial None first_delay counting_machine 0"
proof -
  have "encode_value (VInt (int k)) \<noteq> []" for k by simp
  moreover have "in_i64 (int (k mod 10))" for k :: nat
  proof -
    have "int (k mod 10) < 10" "(10 :: int) < 2 ^ 63" by simp_all
    moreover have "- (2 ^ 63) \<le> (0 :: int)" by simp
    ultimately show ?thesis unfolding in_i64_def by linarith
  qed
  ultimately show ?thesis
    by (auto simp: numbered_servers_def counting_dial_def counting_peer_def first_delay_def sample_tcp_def ready_def
        runs_machine_def counting_state counting_machine_def answers_def simp del: encode_value.simps)
qed

theorem concurrent_commands_stay_apart_witness:
  "\<exists>s log. session sample_env first_delay (sys_new counting_dial (sample_opts 2)) s log Map.empty \<and>
    map fst log = [1, 0, 0] \<and> results_on 0 log = [Ok (VInt 0), Ok (VInt 4)] \<and> results_on 1 log = [Ok (VInt 0)]"
proof -
  define s0 where "s0 = sys_new counting_dial (sample_opts 2)"
  define p where "p = pool_new counting_dial (sample_opts 2)"
  define c where "c n = prepare (sample_opts 2) (connection_new ((sample_tcp [])\<lparr>server := counting_peer n\<rparr>))" for n
  have o: "init_conn (sample_opts 2) = None" "opt_read_timeout (sample_opts 2) = None"
    by (simp_all add: sample_opts_def PoolOptions_default_def)
  have V: "numbered_servers sample_env counting_dial (opt_read_timeout (sample_opts 2)) first_delay counting_machine 0"
    using counting_servers o(2) by simp
  have g: "\<exists>q'. ended (pool_get q) = Some (Using (c (dialled q)), q') \<and> permits q' = permits q - 1 \<and>
      dialled q' = Suc (dialled q) \<and> \<not> ConnPool.closed q' \<and> idle q' = [] \<and> opts q' = opts q \<and> dial q' = dial q"
    if "\<not> ConnPool.closed q" "0 < permits q" "idle q = []" "opts q = sample_opts 2" "dial q = counting_dial" for q
    using that o by (simp add: pool_get.simps [of q] pop_idle_def pool_dial_def unwind_def counting_dial_def c_def Let_def)
  have S: "session sample_env first_delay s0 \<lparr>shared = p, locked = None, tasks = []\<rparr> [] Map.empty"
    using session.opens [of sample_env first_delay s0] by (simp add: s0_def sys_new_def p_def)
  have p: "\<not> ConnPool.closed p" "0 < permits p" "idle p = []" "opts p = sample_opts 2" "dial p = counting_dial"
    "permits p = 2" "dialled p = 0" by (simp_all add: p_def pool_new_def sample_opts_def)
  have "patient first_delay Map.empty s s'" for s s' by (simp add: patient_def)
  note M = session.pool_moves [OF _ _ _ this]
  note G = pool_get_keeps [where P = "\<lambda>s. session sample_env first_delay s0 s [] Map.empty" and N = tcp_net]
  obtain q where q: "session sample_env first_delay s0 \<lparr>shared = q, locked = None, tasks = [Using (c 0)]\<rparr> [] Map.empty"
    "permits q = 1" "\<not> ConnPool.closed q" "idle q = []" "opts q = sample_opts 2" "dial q = counting_dial" "dialled q = 1"
    using g [OF p(1-5)] G [OF S _ M] p(4-7) by fastforce
  then obtain u where "session sample_env first_delay s0
      \<lparr>shared = u, locked = None, tasks = [Using (c 0), Using (c 1)]\<rparr> [] Map.empty"
    using g [of q] G [OF q(1) _ M] by fastforce
  note U = this [unfolded s0_def]
  note E = itoa_decimal_sample
  have id: "first_delay (server (stream (c n))) = n" for n
    by (simp add: c_def prepare_simps first_delay_def counting_peer_def connection_new_def)
  obtain a where a: "first_delay (server (stream a)) = 0"
    "session sample_env first_delay (sys_new counting_dial (sample_opts 2))
      \<lparr>shared = u, locked = None, tasks = [Using a, Using (c 1)]\<rparr> [] [0 \<mapsto> [''PING'']]"
    using session_send [OF U E o(1) V, of 0 "c 0" 0 "[''PING'']"] by (auto simp: id)
  obtain b where b: "first_delay (server (stream b)) = 1"
    "session sample_env first_delay (sys_new counting_dial (sample_opts 2))
      \<lparr>shared = u, locked = None, tasks = [Using a, Using b]\<rparr> [] [0 \<mapsto> [''PING''], 1 \<mapsto> [''PING'']]"
    using session_send [OF a(2) E o(1) V, of 1 "c 1" 1 "[''PING'']"] by (auto simp: id)
  have m1: "[0 \<mapsto> [''PING''], 1 \<mapsto> [''PING'']](1 := None) = ([0 \<mapsto> [''PING'']] :: pending)" by (simp add: fun_eq_iff)
  obtain r1 b' where b': "session sample_env first_delay (sys_new counting_dial (sample_opts 2))
      \<lparr>shared = u, locked = None, tasks = [Using a, Using b']\<rparr> [(1, [''PING''], r1)] [0 \<mapsto> [''PING'']]"
    using session_receive [OF b(2) E o(1) V, of 1 b 1 "[''PING'']"] b(1) unfolding m1 by auto
  obtain r2 a' where a': "first_delay (server (stream a')) = 0"
    "session sample_env first_delay (sys_new counting_dial (sample_opts 2))
      \<lparr>shared = u, locked = None, tasks = [Using a', Using b']\<rparr> [(1, [''PING''], r1), (0, [''PING''], r2)] Map.empty"
    using session_receive [OF b' E o(1) V, of 0 a 0 "[''PING'']"] a(1) by (auto simp: fun_upd_twist)
  obtain d where d: "first_delay (server (stream d)) = 0"
    "session sample_env first_delay (sys_new counting_dial (sample_opts 2))
      \<lparr>shared = u, locked = None, tasks = [Using d, Using b']\<rparr> [(1, [''PING''], r1), (0, [''PING''], r2)]
      [0 \<mapsto> [''GET'', ''a'']]"
    using session_send [OF a'(2) E o(1) V, of 0 a' 0 "[''GET'', ''a'']"] a'(1) by auto
  obtain r3 d' where "session sample_env first_delay (sys_new counting_dial (sample_opts 2))
      \<lparr>shared = u, locked = None, tasks = [Using d', Using b']\<rparr>
      [(1, [''PING''], r1), (0, [''PING''], r2), (0, [''GET'', ''a''], r3)] Map.empty"
    using session_receive [OF d(2) E o(1) V, of 0 d 0 "[''GET'', ''a'']"] d(1) by (auto simp: fun_upd_twist)
  then obtain s log where 3: "session sample_env first_delay (sys_new counting_dial (sample_opts 2)) s log Map.empty"
    and log: "log = [(1, [''PING''], r1), (0, [''PING''], r2), (0, [''GET'', ''a''], r3)]" by blast
  have "counting_machine q args = (Inr (VInt (int (q mod 10))), q + length (resp_command args))" for q args
    by (simp add: counting_machine_def)
  moreover have "show_nat (Suc (Suc (Suc (Suc 0)))) = ''4''" by code_simp
  then have "length (resp_command [''PING'']) = 14" by (simp add: resp_command_def resp_bulk_def)
  ultimately have "results_on 0 log = [Ok (VInt 0), Ok (VInt 4)]" "results_on 1 log = [Ok (VInt 0)]"
    using concurrent_commands_stay_apart [OF E o(1) V 3]
    by (simp_all add: commands_on_def on_conn_def log)
  then show ?thesis using 3 by (intro exI conjI) (assumption, simp_all add: log)
qed

end
