(* ===== verification/Commands.thy ===== *)
theory Commands imports Parser_Laws begin

text \<open>
  \<open>src/commands.rs\<close>: the typed command objects. Each holds its arguments, an error that \<open>set_err\<close>
  stores and a value that \<open>parse\<close> fills from a reply; \<open>result\<close> gives the error first, then the value
  or the default of the type. The structs of the source differ in the type of the value, so they are
  instances of one record; two have more fields.
\<close>

record BaseCmd =
  cmd_args :: "string list"
  cmd_err :: "Error option"

definition BaseCmd_new :: "string list \<Rightarrow> BaseCmd" where
  "BaseCmd_new args = \<lparr>cmd_args = args, cmd_err = None\<rparr>"

definition set_err :: "Error \<Rightarrow> BaseCmd \<Rightarrow> BaseCmd" where
  "set_err e b = b\<lparr>cmd_err := Some e\<rparr>"

definition BaseCmd_err :: "BaseCmd \<Rightarrow> Error option" where
  "BaseCmd_err b = cmd_err b"

record 'v Cmd =
  base :: BaseCmd
  cmd_val :: "'v option"

type_synonym GenericCmd = "Value Cmd"
type_synonym StatusCmd = "string Cmd"
type_synonym IntCmd = "int Cmd"
type_synonym BoolCmd = "bool Cmd"
type_synonym StringCmd = "string Cmd"
type_synonym FloatCmd = "f64 Cmd"
type_synonym StringSliceCmd = "string list Cmd"
type_synonym SliceCmd = "Value list Cmd"
type_synonym BoolSliceCmd = "bool list Cmd"
type_synonym StringMapCmd = "(string \<rightharpoonup> string) Cmd"
type_synonym ZSliceCmd = "Z list Cmd"

record DurationCmd = "nat Cmd" +
  precision :: nat

record ScanCmd =
  scan_base :: BaseCmd
  cursor :: "int option"
  scan_key_list :: "string list option"

definition Cmd_new :: "string list \<Rightarrow> 'v Cmd" where
  "Cmd_new args = \<lparr>base = BaseCmd_new args, cmd_val = None\<rparr>"

definition GenericCmd_new :: "string list \<Rightarrow> GenericCmd" where
  "GenericCmd_new = Cmd_new"

definition StatusCmd_new :: "string list \<Rightarrow> StatusCmd" where
  "StatusCmd_new = Cmd_new"

definition IntCmd_new :: "string list \<Rightarrow> IntCmd" where
  "IntCmd_new = Cmd_new"

definition BoolCmd_new :: "string list \<Rightarrow> BoolCmd" where
  "BoolCmd_new = Cmd_new"

definition StringCmd_new :: "string list \<Rightarrow> StringCmd" where
  "StringCmd_new = Cmd_new"

definition FloatCmd_new :: "string list \<Rightarrow> FloatCmd" where
  "FloatCmd_new = Cmd_new"

definition StringSliceCmd_new :: "string list \<Rightarrow> StringSliceCmd" where
  "StringSliceCmd_new = Cmd_new"

definition SliceCmd_new :: "string list \<Rightarrow> SliceCmd" where
  "SliceCmd_new = Cmd_new"

definition BoolSliceCmd_new :: "string list \<Rightarrow> BoolSliceCmd" where
  "BoolSliceCmd_new = Cmd_new"

definition StringMapCmd_new :: "string list \<Rightarrow> StringMapCmd" where
  "StringMapCmd_new = Cmd_new"

definition ZSliceCmd_new :: "string list \<Rightarrow> ZSliceCmd" where
  "ZSliceCmd_new = Cmd_new"

definition DurationCmd_new :: "nat \<Rightarrow> string list \<Rightarrow> DurationCmd" where
  "DurationCmd_new prec args = \<lparr>base = BaseCmd_new args, cmd_val = None, precision = prec\<rparr>"

definition ScanCmd_new :: "string list \<Rightarrow> ScanCmd" where
  "ScanCmd_new args = \<lparr>scan_base = BaseCmd_new args, cursor = None, scan_key_list = None\<rparr>"

section \<open>Filling in a reply\<close>

text \<open>A reply that converts is stored; one that does not leaves the command as it was.\<close>

definition store :: "('v option) res \<Rightarrow> ('v, 'm) Cmd_scheme \<Rightarrow> unit res \<times> ('v, 'm) Cmd_scheme" where
  "store r c = and_then (r, c) (\<lambda>x c. (Ok (), case x of Some v \<Rightarrow> c\<lparr>cmd_val := Some v\<rparr> | None \<Rightarrow> c))"

definition want_string :: "string \<Rightarrow> Value \<Rightarrow> string res" where
  "want_string msg v = ok_or (redis_err msg) (value_str v)"

definition StatusCmd_parse :: "Value \<Rightarrow> StatusCmd \<Rightarrow> unit res \<times> StatusCmd" where
  "StatusCmd_parse v = store (map_ok Some (want_string ''expected status'' v))"

definition IntCmd_parse :: "Value \<Rightarrow> IntCmd \<Rightarrow> unit res \<times> IntCmd" where
  "IntCmd_parse v =
    store (map_ok Some
      (case v of
         VInt i \<Rightarrow> Ok i
       | _ \<Rightarrow> bind_outcome (want_string ''expected int'' v) (\<lambda>s.
                ok_or (redis_err ''invalid int'') (parse_i64 s))))"

definition want_int :: "Value \<Rightarrow> int res" where
  "want_int v = (case v of VInt i \<Rightarrow> Ok i | _ \<Rightarrow> Err (redis_err ''expected int''))"

definition BoolCmd_parse :: "Value \<Rightarrow> BoolCmd \<Rightarrow> unit res \<times> BoolCmd" where
  "BoolCmd_parse v = store (map_ok (\<lambda>i. Some (i = 1)) (want_int v))"

text \<open>Nil is accepted and leaves the value as it is.\<close>

definition StringCmd_parse :: "Value \<Rightarrow> StringCmd \<Rightarrow> unit res \<times> StringCmd" where
  "StringCmd_parse v =
    store (if v = VNil then Ok None else map_ok Some (want_string ''expected string'' v))"

definition FloatCmd_parse :: "Value \<Rightarrow> FloatCmd \<Rightarrow> unit res \<times> FloatCmd" where
  "FloatCmd_parse v =
    store (map_ok Some (bind_outcome (want_string ''expected string'' v) (\<lambda>s.
      ok_or (redis_err ''invalid float'') (parse_f64 s))))"

text \<open>
  Multiplication of \<open>u64\<close>, as the build says. The product is the number of nanoseconds of the reply
  in units of the precision.
\<close>

definition mul_u64 :: "env \<Rightarrow> nat \<Rightarrow> nat \<Rightarrow> nat res" where
  "mul_u64 E a b =
    (if in_u64 (a * b) then Ok (a * b)
     else if overflow_checks E then Panic else Ok (a * b mod 2 ^ 64))"

definition DurationCmd_parse :: "env \<Rightarrow> Value \<Rightarrow> DurationCmd \<Rightarrow> unit res \<times> DurationCmd" where
  "DurationCmd_parse E v c =
    store (map_ok Some (bind_outcome (want_int v) (\<lambda>i.
      if i < 0 then Ok 0 else mul_u64 E (as_u64 i) (precision c mod 2 ^ 64)))) c"

text \<open>The arrays: one element that does not convert fails the whole.\<close>

fun convert_all :: "('a \<Rightarrow> 'b res) \<Rightarrow> 'a list \<Rightarrow> 'b list \<Rightarrow> 'b list res" where
  "convert_all f [] vals = Ok vals"
| "convert_all f (x # xs) vals = bind_outcome (f x) (\<lambda>y. convert_all f xs (vals @ [y]))"

definition want_array :: "(Value list \<Rightarrow> 'a res) \<Rightarrow> Value \<Rightarrow> 'a res" where
  "want_array f v = (case v of VArray arr \<Rightarrow> f arr | _ \<Rightarrow> Err (redis_err ''expected array''))"

definition StringSliceCmd_parse :: "Value \<Rightarrow> StringSliceCmd \<Rightarrow> unit res \<times> StringSliceCmd" where
  "StringSliceCmd_parse v =
    store (map_ok Some (want_array (\<lambda>arr. convert_all (want_string ''expected string'') arr []) v))"

definition SliceCmd_parse :: "Value \<Rightarrow> SliceCmd \<Rightarrow> unit res \<times> SliceCmd" where
  "SliceCmd_parse v = store (map_ok Some (want_array Ok v))"

definition BoolSliceCmd_parse :: "Value \<Rightarrow> BoolSliceCmd \<Rightarrow> unit res \<times> BoolSliceCmd" where
  "BoolSliceCmd_parse v =
    store (map_ok Some (want_array (\<lambda>arr. convert_all (\<lambda>x. map_ok (\<lambda>i. i = 1) (want_int x)) arr []) v))"

text \<open>The elements two by two; an element left over at the end is ignored.\<close>

fun pair_loop :: "(string \<Rightarrow> string \<Rightarrow> 'b \<Rightarrow> 'b res) \<Rightarrow> Value list \<Rightarrow> 'b \<Rightarrow> 'b res" where
  "pair_loop f (x # y # rest) acc =
    bind_outcome (want_string ''expected string'' x) (\<lambda>k.
    bind_outcome (want_string ''expected string'' y) (\<lambda>v.
    bind_outcome (f k v acc) (\<lambda>acc. pair_loop f rest acc)))"
| "pair_loop f _ acc = Ok acc"

definition StringMapCmd_parse :: "Value \<Rightarrow> StringMapCmd \<Rightarrow> unit res \<times> StringMapCmd" where
  "StringMapCmd_parse v =
    store (map_ok Some (want_array (\<lambda>arr. pair_loop (\<lambda>k v m. Ok (m(k \<mapsto> v))) arr Map.empty) v))"

definition ZSliceCmd_parse :: "Value \<Rightarrow> ZSliceCmd \<Rightarrow> unit res \<times> ZSliceCmd" where
  "ZSliceCmd_parse v =
    store (map_ok Some (want_array (\<lambda>arr.
      pair_loop (\<lambda>m score_str zz.
        map_ok (\<lambda>f. zz @ [\<lparr>score = f, zmember = m\<rparr>])
          (ok_or (redis_err ''invalid float'') (parse_f64 score_str))) arr []) v))"

definition ScanCmd_parse :: "Value \<Rightarrow> ScanCmd \<Rightarrow> unit res \<times> ScanCmd" where
  "ScanCmd_parse v c =
    (case v of
       VArray arr \<Rightarrow>
         if length arr < 2 then (Err (redis_err ''invalid scan reply''), c)
         else (Ok (),
               c\<lparr>cursor := (case arr ! 0 of
                              VInt i \<Rightarrow> Some i
                            | x \<Rightarrow> (case value_str x of Some s \<Rightarrow> parse_i64 s | None \<Rightarrow> None)),
                 scan_key_list := Some (scan_keys (arr ! 1))\<rparr>)
     | _ \<Rightarrow> (Err (redis_err ''expected array''), c))"

section \<open>Results\<close>

definition base_result :: "BaseCmd \<Rightarrow> 'a res \<Rightarrow> 'a res" where
  "base_result b r = (case cmd_err b of Some e \<Rightarrow> Err e | None \<Rightarrow> r)"

text \<open>The value as an option (generic and string commands).\<close>

definition result_option :: "'v Cmd \<Rightarrow> 'v option res" where
  "result_option c = base_result (base c) (Ok (cmd_val c))"

text \<open>A value that must be there (status, int, bool, float and duration commands).\<close>

definition result_required :: "('v, 'm) Cmd_scheme \<Rightarrow> 'v res" where
  "result_required c = base_result (base c) (ok_or (EOther ''no value'') (cmd_val c))"

text \<open>A value with a default (slices and maps).\<close>

definition result_or :: "'v \<Rightarrow> 'v Cmd \<Rightarrow> 'v res" where
  "result_or d c = base_result (base c) (Ok (case cmd_val c of Some v \<Rightarrow> v | None \<Rightarrow> d))"

definition GenericCmd_result :: "GenericCmd \<Rightarrow> Value option res" where
  "GenericCmd_result = result_option"

definition GenericCmd_val :: "GenericCmd \<Rightarrow> Value option" where
  "GenericCmd_val c = cmd_val c"

definition StatusCmd_result :: "StatusCmd \<Rightarrow> string res" where
  "StatusCmd_result = result_required"

definition IntCmd_result :: "IntCmd \<Rightarrow> int res" where
  "IntCmd_result = result_required"

definition BoolCmd_result :: "BoolCmd \<Rightarrow> bool res" where
  "BoolCmd_result = result_required"

definition StringCmd_result :: "StringCmd \<Rightarrow> string option res" where
  "StringCmd_result = result_option"

definition FloatCmd_result :: "FloatCmd \<Rightarrow> f64 res" where
  "FloatCmd_result = result_required"

definition DurationCmd_result :: "DurationCmd \<Rightarrow> nat res" where
  "DurationCmd_result = result_required"

definition StringSliceCmd_result :: "StringSliceCmd \<Rightarrow> string list res" where
  "StringSliceCmd_result = result_or []"

definition SliceCmd_result :: "SliceCmd \<Rightarrow> Value list res" where
  "SliceCmd_result = result_or []"

definition BoolSliceCmd_result :: "BoolSliceCmd \<Rightarrow> bool list res" where
  "BoolSliceCmd_result = result_or []"

definition StringMapCmd_result :: "StringMapCmd \<Rightarrow> (string \<rightharpoonup> string) res" where
  "StringMapCmd_result = result_or Map.empty"

definition ZSliceCmd_result :: "ZSliceCmd \<Rightarrow> Z list res" where
  "ZSliceCmd_result = result_or []"

definition ScanCmd_result :: "ScanCmd \<Rightarrow> (int \<times> string list) res" where
  "ScanCmd_result c =
    base_result (scan_base c)
      (Ok (case cursor c of Some i \<Rightarrow> i | None \<Rightarrow> 0,
           case scan_key_list c of Some ks \<Rightarrow> ks | None \<Rightarrow> []))"

section \<open>Facts\<close>

lemma value_str_Some: "value_str v = Some s \<longleftrightarrow> v = VBulkString s \<or> v = VStatus s"
  by (cases v) auto

lemma convert_all_Ok:
  "convert_all f xs vals = Ok ys \<longleftrightarrow>
    (\<exists>zs. ys = vals @ zs \<and> list_all2 (\<lambda>x z. f x = Ok z) xs zs)"
proof (induction xs arbitrary: vals)
  case Nil
  then show ?case by auto
next
  case (Cons x xs)
  show ?case
    by (auto simp: bind_outcome_Ok_iff Cons.IH list_all2_Cons1)
qed

text \<open>After a successful \<open>parse\<close> the result is the value, unless an error had been set.\<close>

lemma store_result:
  "store (Ok (Some v)) c = (Ok (), c\<lparr>cmd_val := Some v\<rparr>)"
  "store (Ok None) c = (Ok (), c)"
  "store (Err e) c = (Err e, c)"
  "store Panic c = (Panic, c)"
  by (simp_all add: store_def)

end
