(* ===== verification/F64_Laws.thy ===== *)
theory F64_Laws imports F64 Complex_Main begin

text \<open>
  The laws of the conversions of \<open>F64\<close>: the double that a decimal reads as is the nearest one, and the
  text of a double reads back as this double.
\<close>

section \<open>Scaled numbers as reals\<close>

lemma scale_ratio:
  assumes "0 < b"
  shows "real (scale_num b n e) / real (scale_den b d e) = real n / real d * real b powi e"
proof (cases e)
  case (nonneg k)
  then show ?thesis by (simp add: scale_num_def scale_den_def)
next
  case (neg k)
  then have "real b powi e = 1 / real b ^ Suc k" by (simp add: power_int_minus_divide del: of_nat_Suc)
  then show ?thesis using neg by (simp add: scale_num_def scale_den_def nat_add_distrib)
qed

lemma unscale_ratio:
  assumes "0 < b"
  shows "real (scale_den b n e) / real (scale_num b d e) = real n / real d / real b powi e"
  using scale_ratio [OF assms, of n "- e" d]
  by (simp add: scale_num_def scale_den_def power_int_minus_divide)

lemma scale_pos [simp]:
  "0 < b \<Longrightarrow> 0 < scale_num b n e \<longleftrightarrow> 0 < n" "0 < b \<Longrightarrow> 0 < scale_den b n e \<longleftrightarrow> 0 < n"
  by (simp_all add: scale_num_def scale_den_def)

lemma powi_bracket_unique:
  fixes b y :: real
  assumes "1 < b" "b powi i \<le> y" "y < b powi (i + 1)" "b powi j \<le> y" "y < b powi (j + 1)"
  shows "i = j"
proof (rule ccontr)
  assume "i \<noteq> j"
  then consider "i + 1 \<le> j" | "j + 1 \<le> i" by linarith
  then show False
    using power_int_increasing [of "i + 1" j b] power_int_increasing [of "j + 1" i b] assms
    by cases linarith+
qed

section \<open>Counting digits\<close>

lemma bit_len_bounds: "0 < n \<Longrightarrow> 2 ^ (bit_len n - 1) \<le> n \<and> n < 2 ^ bit_len n \<and> 0 < bit_len n"
proof (induction n rule: bit_len.induct)
  case (1 n)
  show ?case
  proof (cases "n = 1")
    case True
    then show ?thesis by (simp add: bit_len.simps [of "Suc 0"] bit_len.simps [of 0])
  next
    case False
    then have "0 < n div 2" using 1 by simp
    moreover from this have "2 ^ bit_len (n div 2) = 2 * (2 :: nat) ^ (bit_len (n div 2) - 1)"
      using 1 by (metis Suc_diff_1 power_Suc neq0_conv)
    ultimately show ?thesis using 1 by (simp add: bit_len.simps [of n]) linarith
  qed
qed

lemma show_nat_bounds:
  "0 < n \<Longrightarrow> 10 ^ (length (show_nat n) - 1) \<le> n \<and> n < 10 ^ length (show_nat n) \<and> 0 < length (show_nat n)"
proof (induction n rule: show_nat.induct)
  case (1 n)
  show ?case
  proof (cases "n < 10")
    case True
    then show ?thesis using 1 by (simp add: show_nat_small)
  next
    case False
    then have "0 < n div 10" by simp
    moreover from this
    have "10 ^ length (show_nat (n div 10)) = 10 * (10 :: nat) ^ (length (show_nat (n div 10)) - 1)"
      by (metis Suc_diff_1 length_greater_0_conv power_Suc show_nat_nonempty)
    ultimately show ?thesis using 1 False by (simp add: show_nat_step) linarith
  qed
qed

lemma bracket_real:
  assumes "(b :: nat) ^ (k - 1) \<le> n \<and> n < b ^ k \<and> 0 < k" "0 < b"
  shows "real b powi (int k - 1) \<le> real n" "real n < real b powi int k"
proof -
  have "real (b ^ (k - 1)) \<le> real n" "real n < real (b ^ k)"
    using assms of_nat_le_iff of_nat_less_iff by blast+
  moreover have "int k - 1 = int (k - 1)" using assms by simp
  ultimately show "real b powi (int k - 1) \<le> real n" "real n < real b powi int k"
    by (simp_all del: of_nat_diff)
qed

lemmas bit_len_real = bracket_real [OF bit_len_bounds]
lemmas show_nat_real = bracket_real [OF show_nat_bounds]

lemma ratio_log2_bounds:
  assumes "0 < n" "0 < d"
  shows "2 powi ratio_log2 n d \<le> real n / real d" "real n / real d < 2 powi (ratio_log2 n d + 1)"
proof -
  define e where "e = int (bit_len n) - int (bit_len d)"
  note n = bit_len_real [OF assms(1), simplified]
  note d = bit_len_real [OF assms(2), simplified]
  have "2 powi (e - 1) = (2 powi (int (bit_len n) - 1) / 2 powi int (bit_len d) :: real)"
    using power_int_diff [of "2 :: real" "int (bit_len n) - 1" "int (bit_len d)"]
    by (simp add: e_def algebra_simps)
  also have "\<dots> \<le> real n / real d"
    using n d assms by (intro frac_le) auto
  finally have lo: "2 powi (e - 1) \<le> real n / real d" .
  have "real n / real d < 2 powi int (bit_len n) / 2 powi (int (bit_len d) - 1)"
    using n d assms by (intro frac_less) auto
  also have "\<dots> = (2 powi (e + 1) :: real)"
    using power_int_diff [of "2 :: real" "int (bit_len n)" "int (bit_len d) - 1"]
    by (simp add: e_def algebra_simps)
  finally have hi: "real n / real d < 2 powi (e + 1)" .
  have "scale_num 2 d e \<le> scale_den 2 n e \<longleftrightarrow> 1 \<le> real (scale_den 2 n e) / real (scale_num 2 d e)"
    using assms by (simp add: le_divide_eq)
  also have "\<dots> \<longleftrightarrow> 2 powi e \<le> real n / real d"
    unfolding unscale_ratio [of 2, simplified] using assms by (simp add: le_divide_eq mult.commute)
  finally have "ratio_log2 n d = (if 2 powi e \<le> real n / real d then e else e - 1)"
    by (simp add: ratio_log2_def e_def Let_def)
  then show "2 powi ratio_log2 n d \<le> real n / real d" "real n / real d < 2 powi (ratio_log2 n d + 1)"
    using lo hi by auto
qed

section \<open>Rounding to the nearest\<close>

lemma round_even_nearest:
  assumes "0 < d" "\<bar>real n / real d - real m\<bar> < 1 / 2"
  shows "round_even n d = m"
proof -
  define q r where "q = n div d" and "r = n mod d"
  define t where "t = real r / real d"
  have t: "real n / real d = real q + t" unfolding q_def r_def t_def by (rule of_nat_of_nat_div_aux)
  have t01: "0 \<le> t" "t < 1" unfolding r_def t_def using assms(1) by simp_all
  have less: "2 * r < d \<longleftrightarrow> t < 1 / 2" and tie: "2 * r = d \<longleftrightarrow> t = 1 / 2"
    using assms(1) by (auto simp: t_def field_simps)
  have near: "real q + t - real m < 1 / 2" "real m - real q - t < 1 / 2" using assms(2) unfolding t by linarith+
  show ?thesis
  proof (cases "t < 1 / 2")
    case True
    then have "real q < real (m + 1)" "real m < real (q + 1)" using near t01 by linarith+
    then have "q = m" unfolding of_nat_less_iff by simp
    then show ?thesis using True less by (simp add: round_even_def q_def r_def Let_def)
  next
    case False
    then have "real q < real m" "real m < real (q + 2)" using near t01 by linarith+
    then have "m = q + 1" unfolding of_nat_less_iff by simp
    moreover have "t \<noteq> 1 / 2" using near calculation by auto
    ultimately show ?thesis using False less tie by (simp add: round_even_def q_def r_def Let_def)
  qed
qed

lemma f64_of_ratio_nearest:
  assumes "canonical m e" "0 < n" "0 < d"
    and near: "\<bar>real n / real d - real m * 2 powi e\<bar> < 2 powi e / 2"
    and edge: "m = 2 ^ 52 \<Longrightarrow> e \<noteq> - 1074 \<Longrightarrow> real m * 2 powi e \<le> real n / real d"
  shows "f64_of_ratio neg n d = F_Fin neg m e"
proof -
  define y where "y = real n / real d"
  define l where "l = ratio_log2 n d"
  have u: "0 < (2 powi e :: real)" by simp
  have n1: "real m * 2 powi e - 2 powi e / 2 < y" and n2: "y < real m * 2 powi e + 2 powi e / 2"
    using near unfolding abs_diff_less_iff y_def by auto
  have l: "2 powi l \<le> y" "y < 2 powi (l + 1)"
    using ratio_log2_bounds [OF assms(2,3)] by (simp_all add: y_def l_def)
  have split: "2 powi (e + 52) = 2 ^ 52 * (2 powi e :: real)" "2 powi (e + 53) = 2 ^ 53 * (2 powi e :: real)"
    by (simp_all add: power_int_add)
  have "real m + 1 \<le> 2 ^ 53" using assms(1) by (simp add: canonical_def)
  then have "(real m + 1) * 2 powi e \<le> 2 ^ 53 * 2 powi e" by (intro mult_right_mono) auto
  then have hi: "y < 2 powi (e + 53)"
    using n2 u unfolding split distrib_right by linarith
  have p: "max (l - 52) (- 1074) = e"
  proof (cases "e = - 1074")
    case True
    have "\<not> e + 53 \<le> l"
      using power_int_increasing [of "e + 53" l "2 :: real"] hi l(1) by auto
    then show ?thesis using True by simp
  next
    case False
    then have m: "2 ^ 52 \<le> m" using assms(1) by (auto simp: canonical_def)
    have "2 powi (e + 52) \<le> y"
    proof (cases "m = 2 ^ 52")
      case True
      then show ?thesis using edge False split(1) by (simp add: y_def)
    next
      case m': False
      then have "2 ^ 52 + 1 \<le> m" using m by simp
      then have "2 ^ 52 + 1 \<le> real m" using of_nat_le_iff [where ?'a = real] by fastforce
      then have "(2 ^ 52 + 1) * 2 powi e \<le> real m * 2 powi e" by (intro mult_right_mono) auto
      then show ?thesis using n1 u unfolding split distrib_right by linarith
    qed
    moreover have "y < 2 powi (e + 52 + 1)" using hi by (simp only: add.assoc) simp
    ultimately have "l = e + 52"
      using l by (intro powi_bracket_unique [of 2 l y "e + 52"]) (assumption | simp)+
    then show ?thesis using assms(1) by (simp add: canonical_def)
  qed
  have "real (scale_den 2 n e) / real (scale_num 2 d e) - real m = (y - real m * 2 powi e) / 2 powi e"
    using unscale_ratio [of 2 n e d] by (simp add: y_def diff_divide_distrib)
  then have "\<bar>real (scale_den 2 n e) / real (scale_num 2 d e) - real m\<bar> < 1 / 2"
    using near by (simp add: y_def divide_less_eq)
  then have "round_even (scale_den 2 n e) (scale_num 2 d e) = m"
    using assms(3) by (intro round_even_nearest) simp
  then show ?thesis
    using p assms(1) by (simp add: f64_of_ratio_def l_def canonical_def)
qed

lemma f64_of_decimal_nearest:
  assumes "canonical m e" "0 < m" "0 < c"
    and near: "\<bar>real c * 10 powi x - real m * 2 powi e\<bar> < 2 powi e / 2"
    and edge: "m = 2 ^ 52 \<Longrightarrow> e \<noteq> - 1074 \<Longrightarrow> real m * 2 powi e \<le> real c * 10 powi x"
  shows "f64_of_decimal neg c x = F_Fin neg m e"
proof -
  define y where "y = real c * 10 powi x"
  define top where "top = int (length (show_nat c)) + x"
  have u: "0 < (2 powi e :: real)" by simp
  have n1: "real m * 2 powi e - 2 powi e / 2 < y" and n2: "y < real m * 2 powi e + 2 powi e / 2"
    using near unfolding abs_diff_less_iff y_def by auto
  note c = show_nat_real [OF assms(3), simplified]
  have "10 powi (int (length (show_nat c)) - 1) * 10 powi x \<le> y"
    unfolding y_def using c by (intro mult_right_mono) auto
  then have lo: "10 powi (top - 1) \<le> y"
    using power_int_add [of "10 :: real" "int (length (show_nat c)) - 1" x] by (simp add: top_def algebra_simps)
  have "y < 10 powi int (length (show_nat c)) * 10 powi x"
    unfolding y_def using c by (intro mult_strict_right_mono) auto
  then have hi: "y < 10 powi top" by (simp add: top_def power_int_add)
  have "1 * 2 powi e \<le> real m * 2 powi e" using assms(2) by (intro mult_right_mono) auto
  then have "2 powi e / 2 < y" using n1 by linarith
  moreover have "2 powi (- 1074) \<le> (2 powi e :: real)"
    using assms(1) by (intro power_int_increasing) (auto simp: canonical_def)
  ultimately have small: "2 powi (- 1074) / 2 < y" by linarith
  have "real m + 1 \<le> 2 ^ 53" using assms(1) by (simp add: canonical_def)
  then have "(real m + 1) * 2 powi e \<le> 2 ^ 53 * 2 powi e" by (intro mult_right_mono) auto
  then have "y < 2 ^ 53 * 2 powi e"
    using n2 u unfolding distrib_right by linarith
  moreover have "2 powi e \<le> (2 powi 971 :: real)"
    using assms(1) by (intro power_int_increasing) (auto simp: canonical_def)
  ultimately have big: "y < 2 ^ 53 * 2 ^ 971" by simp
  have "\<not> top < - 330"
  proof
    assume "top < - 330"
    then have "10 powi top \<le> (10 powi (- 330) :: real)" by (intro power_int_increasing) auto
    then show False using hi small by (simp add: power_int_minus)
  qed
  moreover have "\<not> 310 < top"
  proof
    assume "310 < top"
    then have "10 powi 310 \<le> (10 powi (top - 1) :: real)" by (intro power_int_increasing) auto
    then show False using lo big by simp
  qed
  moreover have "f64_of_ratio neg (scale_num 10 c x) (scale_den 10 1 x) = F_Fin neg m e"
    using assms scale_ratio [of 10 c x 1] by (intro f64_of_ratio_nearest) simp_all
  ultimately show ?thesis
    using assms(3) by (simp add: f64_of_decimal_def top_def)
qed

section \<open>Seventeen digits are enough\<close>

lemma ratio_log10_bounds:
  assumes "0 < n" "0 < d"
  shows "10 powi (ratio_log10 n d - 1) \<le> real n / real d" "real n / real d < 10 powi ratio_log10 n d"
proof -
  have "10 powi (ratio_log10 n d - 1) \<le> real n / real d \<and> real n / real d < 10 powi ratio_log10 n d"
  proof (cases "d \<le> n")
    case True
    define q where "q = n div d"
    have "0 < q" using True assms by (simp add: q_def div_greater_zero_iff)
    note b = show_nat_bounds [OF this]
    define k where "k = length (show_nat q) - 1"
    have k: "length (show_nat q) = Suc k" using b by (simp add: k_def)
    have "10 ^ k * d \<le> n"
      using b assms(2) by (simp add: k_def q_def less_eq_div_iff_mult_less_eq)
    moreover have "n < 10 ^ Suc k * d"
      using b assms(2) k by (simp add: q_def div_less_iff_less_mult)
    ultimately have "real (10 ^ k * d) \<le> real n" "real n < real (10 ^ Suc k * d)"
      using of_nat_le_iff of_nat_less_iff by blast+
    then have "10 ^ k \<le> real n / real d" "real n / real d < 10 ^ Suc k"
      using assms(2) by (simp_all add: pos_le_divide_eq pos_divide_less_eq)
    moreover have "ratio_log10 n d = int (Suc k)" using True k by (simp add: ratio_log10_def q_def)
    ultimately show ?thesis using power_int_of_nat [of "10 :: real" "Suc k"] by simp
  next
    case False
    define q where "q = (d - 1) div n"
    have "0 < q" using False assms by (simp add: q_def div_greater_zero_iff)
    note b = show_nat_bounds [OF this]
    define k where "k = length (show_nat q) - 1"
    have k: "length (show_nat q) = Suc k" using b by (simp add: k_def)
    have "10 ^ k * n \<le> d - 1"
      using b assms(1) by (simp add: k_def q_def less_eq_div_iff_mult_less_eq)
    moreover have "d - 1 < 10 ^ Suc k * n"
      using b assms(1) k by (simp add: q_def div_less_iff_less_mult)
    ultimately have "10 ^ k * n < d" "d \<le> 10 ^ Suc k * n" using assms(2) by linarith+
    then have "real (10 ^ k * n) < real d" "real d \<le> real (10 ^ Suc k * n)"
      using of_nat_le_iff of_nat_less_iff by blast+
    then have "real n / real d < 1 / 10 ^ k" "1 / 10 ^ Suc k \<le> real n / real d"
      using assms by (simp_all add: field_simps)
    moreover have "ratio_log10 n d = - int k" using False k by (simp add: ratio_log10_def q_def)
    moreover have "- int k - 1 = - int (Suc k)" by simp
    then have "(10 :: real) powi (- int k - 1) = 1 / 10 ^ Suc k"
      by (simp only: power_int_minus_divide power_int_of_nat)
    ultimately show ?thesis by (simp add: power_int_minus_divide)
  qed
  then show "10 powi (ratio_log10 n d - 1) \<le> real n / real d" "real n / real d < 10 powi ratio_log10 n d"
    by simp_all
qed

lemma candidate_17:
  assumes "canonical m e" "0 < m"
  shows "candidate m e 17 \<noteq> None"
proof -
  define n d where "n = scale_num 2 m e" and "d = scale_den 2 1 e"
  define x where "x = ratio_log10 n d - int 17"
  define n1 d1 where "n1 = scale_den 10 n x" and "d1 = scale_num 10 d x"
  define lo where "lo = n1 div d1"
  define v D u where "v = real m * 2 powi e" and "D = (10 powi x :: real)" and "u = (2 powi e :: real)"
  have nd: "0 < n" "0 < d" using assms(2) by (simp_all add: n_def d_def)
  have D: "0 < D" and u: "0 < u" by (simp_all add: D_def u_def)
  have v: "real n / real d = v" using scale_ratio [of 2 m e 1] by (simp add: n_def d_def v_def)
  have w: "real n1 / real d1 = v / D"
    using unscale_ratio [of 10 n x d] by (simp add: n1_def d1_def v D_def)
  have "10 powi (x + 16) \<le> v"
    using ratio_log10_bounds(1) [OF nd] by (simp add: v x_def algebra_simps)
  then have Dv: "10 ^ 16 * D \<le> v" by (simp add: D_def power_int_add mult.commute)
  have "real lo \<le> v / D" "v / D < real lo + 1"
    unfolding w [symmetric] lo_def
    using floor_divide_of_nat_eq [of n1 d1, where ?'a = real] floor_correct [of "real n1 / real d1"]
    by simp_all
  then have around: "real lo * D \<le> v" "v < (real lo + 1) * D"
    using D by (simp_all add: pos_le_divide_eq pos_divide_less_eq)
  have "10 ^ 16 * D < (real lo + 1) * D" using Dv around(2) by linarith
  then have "10 ^ 16 < real lo + 1" using D by simp
  then have lo: "0 < lo" by (cases lo) auto
  have D_lt: "D < u"
  proof -
    have "real m \<le> 2 ^ 53" using assms(1) by (simp add: canonical_def)
    then have "v \<le> 2 ^ 53 * u" using u unfolding v_def u_def by (intro mult_right_mono) auto
    then show ?thesis using Dv u by simp
  qed
  have reads: "f64_of_decimal False c x = F_Fin False m e"
    if "0 < c" "\<bar>real c * D - v\<bar> < u / 2" "m = 2 ^ 52 \<Longrightarrow> e \<noteq> - 1074 \<Longrightarrow> v \<le> real c * D" for c
    using that assms unfolding D_def v_def u_def by (intro f64_of_decimal_nearest) auto
  have "f64_of_decimal False lo x = F_Fin False m e \<or> f64_of_decimal False (lo + 1) x = F_Fin False m e"
  proof (cases "m = 2 ^ 52 \<and> e \<noteq> - 1074")
    case True
    then have "10 ^ 16 * D \<le> 2 ^ 52 * u" using Dv by (simp add: v_def u_def)
    then have "D < u / 2" using u by simp
    then show ?thesis
      using reads [of "lo + 1"] around unfolding distrib_right by (auto simp: algebra_simps)
  next
    case False
    have "v - real lo * D < u / 2 \<or> (real lo + 1) * D - v < u / 2"
      using D_lt unfolding distrib_right by linarith
    then show ?thesis
      using reads [of lo] reads [of "lo + 1"] around lo False by (auto simp: algebra_simps)
  qed
  then show ?thesis
    unfolding candidate_def Let_def n_def [symmetric] d_def [symmetric] x_def [symmetric]
      n1_def [symmetric] d1_def [symmetric] lo_def [symmetric] by auto
qed

lemma candidate_reads:
  "candidate m e k = Some (c, x) \<Longrightarrow> f64_of_decimal False c x = F_Fin False m e"
  by (auto simp: candidate_def Let_def split: if_splits)

lemma shortest_reads:
  "k \<in> set ks \<Longrightarrow> candidate m e k \<noteq> None \<Longrightarrow> shortest m e ks = (c, x) \<Longrightarrow>
    f64_of_decimal False c x = F_Fin False m e"
  by (induction ks) (auto split: option.splits dest: candidate_reads)

section \<open>Reading depends on the value alone\<close>

lemma ratio_log2_cong:
  assumes "0 < n" "0 < d" "0 < n'" "0 < d'" "real n / real d = real n' / real d'"
  shows "ratio_log2 n d = ratio_log2 n' d'"
  using ratio_log2_bounds [OF assms(1,2)] ratio_log2_bounds [OF assms(3,4)] assms(5)
  by (intro powi_bracket_unique [of 2 _ "real n / real d"]) auto

lemma round_even_cong:
  assumes "0 < d" "0 < d'" "real n / real d = real n' / real d'"
  shows "round_even n d = round_even n' d'"
proof -
  have q: "n div d = n' div d'"
    using floor_divide_of_nat_eq [of n d, where ?'a = real] floor_divide_of_nat_eq [of n' d', where ?'a = real]
      assms(3) by simp
  then have r: "real (n mod d) / real d = real (n' mod d') / real d'"
    using of_nat_of_nat_div_aux [of n d, where ?'a = real] of_nat_of_nat_div_aux [of n' d', where ?'a = real]
      assms(3) by simp
  have less: "2 * a < b \<longleftrightarrow> real a / real b < 1 / 2" and tie: "2 * a = b \<longleftrightarrow> real a / real b = 1 / 2"
    if "0 < b" for a b :: nat
    using that by (auto simp: pos_divide_less_eq divide_eq_eq)
  show ?thesis
    unfolding round_even_def Let_def less [OF assms(1)] less [OF assms(2)] tie [OF assms(1)] tie [OF assms(2)]
      q r ..
qed

lemma f64_of_ratio_cong:
  assumes "0 < n" "0 < d" "0 < n'" "0 < d'" "real n / real d = real n' / real d'"
  shows "f64_of_ratio neg n d = f64_of_ratio neg n' d'"
proof -
  define p where "p = max (ratio_log2 n' d' - 52) (- 1074)"
  have "round_even (scale_den 2 n p) (scale_num 2 d p) = round_even (scale_den 2 n' p) (scale_num 2 d' p)"
    using assms unscale_ratio [of 2 n p d] unscale_ratio [of 2 n' p d'] by (intro round_even_cong) simp_all
  then show ?thesis
    unfolding f64_of_ratio_def Let_def ratio_log2_cong [OF assms] p_def [symmetric] by simp
qed

lemma decimal_top:
  assumes "0 < c"
  shows "10 powi (int (length (show_nat c)) + x - 1) \<le> real c * 10 powi x"
    "real c * 10 powi x < 10 powi (int (length (show_nat c)) + x - 1 + 1)"
proof -
  note b = show_nat_real [OF assms, simplified]
  have "10 powi (int (length (show_nat c)) - 1) * 10 powi x \<le> real c * 10 powi x"
    using b by (intro mult_right_mono) auto
  then show "10 powi (int (length (show_nat c)) + x - 1) \<le> real c * 10 powi x"
    using power_int_add [of "10 :: real" "int (length (show_nat c)) - 1" x] by (simp add: algebra_simps)
  have "real c * 10 powi x < 10 powi int (length (show_nat c)) * 10 powi x"
    using b by (intro mult_strict_right_mono) auto
  then show "real c * 10 powi x < 10 powi (int (length (show_nat c)) + x - 1 + 1)"
    by (simp add: power_int_add)
qed

lemma f64_of_decimal_cong:
  assumes "0 < c" "0 < c'" "real c * 10 powi x = real c' * 10 powi x'"
  shows "f64_of_decimal neg c x = f64_of_decimal neg c' x'"
proof -
  have "int (length (show_nat c)) + x - 1 = int (length (show_nat c')) + x' - 1"
    by (rule powi_bracket_unique [of 10 _ "real c * 10 powi x"])
      (use decimal_top [OF assms(1), of x] decimal_top [OF assms(2), of x'] assms(3) in simp_all)
  then have t: "int (length (show_nat c)) + x = int (length (show_nat c')) + x'" by simp
  have "f64_of_ratio neg (scale_num 10 c x) (scale_den 10 1 x) =
      f64_of_ratio neg (scale_num 10 c' x') (scale_den 10 1 x')"
    using assms scale_ratio [of 10 c x 1] scale_ratio [of 10 c' x' 1] by (intro f64_of_ratio_cong) simp_all
  then show ?thesis unfolding f64_of_decimal_def Let_def t using assms(1,2) by simp
qed

lemma f64_of_decimal_sign:
  "f64_of_decimal False c x = F_Fin False m e \<Longrightarrow> f64_of_decimal neg c x = F_Fin neg m e"
  by (auto simp: f64_of_decimal_def f64_of_ratio_def Let_def split: if_splits)

section \<open>The text of a decimal\<close>

lemma digits_val_zeros: "digits_val a (replicate k (CHR ''0'')) = Some (a * 10 ^ k)"
  by (induction k arbitrary: a) (simp_all add: digit_val_def algebra_simps)

lemma digits_val_lead: "digits_val 0 (replicate k (CHR ''0'') @ ds) = digits_val 0 ds"
  by (simp add: digits_val_append digits_val_zeros)

lemma parse_number_whole:
  assumes "ws \<noteq> []" "\<forall>ch \<in> set ws. is_digit ch" "digits_val 0 ws = Some c"
  shows "parse_number ws = Some (c, 0)"
  using assms by (simp add: parse_number_def Let_def takeWhile_eq_all_conv [THEN iffD2]
      dropWhile_eq_Nil_conv [THEN iffD2])

lemma parse_number_point:
  assumes "ws \<noteq> []" "\<forall>ch \<in> set ws. is_digit ch" "\<forall>ch \<in> set fs. is_digit ch" "digits_val 0 (ws @ fs) = Some c"
  shows "parse_number (ws @ ''.'' @ fs) = Some (c, - int (length fs))"
proof -
  have "\<not> is_digit (CHR ''.'')" by (simp add: is_digit_iff)
  then have "takeWhile is_digit (ws @ ''.'' @ fs) = ws" "dropWhile is_digit (ws @ ''.'' @ fs) = ''.'' @ fs"
    using assms(2) by (simp_all add: takeWhile_append2 dropWhile_append2)
  moreover have "takeWhile is_digit fs = fs" "dropWhile is_digit fs = []"
    using assms(3) by (simp_all add: takeWhile_eq_all_conv dropWhile_eq_Nil_conv)
  ultimately have f: "takeWhile is_digit (ws @ ''.'' @ fs) = ws" "dropWhile is_digit (ws @ ''.'' @ fs) = ''.'' @ fs"
    "takeWhile is_digit fs = fs" "dropWhile is_digit fs = []" by blast+
  show ?thesis using assms(1,4) f(1,2) by (simp add: parse_number_def Let_def f(3,4))
qed

lemma parse_render_decimal:
  assumes "0 < c"
  obtains c' x' where "parse_number (render_decimal c x) = Some (c', x')" "0 < c'"
    "real c' * 10 powi x' = real c * 10 powi x"
proof -
  define ds where "ds = show_nat c"
  define p where "p = int (length ds) + x"
  have ds: "\<forall>ch \<in> set ds. is_digit ch" "digits_val 0 ds = Some c"
    by (simp_all add: ds_def show_nat_digits digits_val_show_nat)
  have zero: "is_digit (CHR ''0'')" by (simp add: is_digit_iff)
  consider "0 \<le> x" | "x < 0" "0 < p" | "x < 0" "p \<le> 0" by linarith
  then show thesis
  proof cases
    case 1
    have "parse_number (render_decimal c x) = Some (c * 10 ^ nat x, 0)"
      using 1 ds zero by (simp add: render_decimal_def ds_def [symmetric] Let_def)
        (rule parse_number_whole; auto simp: ds_def digits_val_append digits_val_zeros digits_val_show_nat)
    then show thesis using 1 assms that [of "c * 10 ^ nat x" 0] by (simp add: power_int_nonneg_exp)
  next
    case 2
    have r: "render_decimal c x = take (nat p) ds @ ''.'' @ drop (nat p) ds"
      using 2 by (simp add: render_decimal_def ds_def [symmetric] p_def [symmetric] Let_def)
    have "parse_number (render_decimal c x) = Some (c, - int (length (drop (nat p) ds)))"
      unfolding r using 2 ds by (intro parse_number_point) (auto simp: ds_def dest: in_set_takeD in_set_dropD)
    moreover have "- int (length (drop (nat p) ds)) = x" using 2 by (simp add: p_def)
    ultimately show thesis using assms that by simp
  next
    case 3
    have r: "render_decimal c x = ''0'' @ ''.'' @ (replicate (nat (- p)) (CHR ''0'') @ ds)"
      using 3 by (simp add: render_decimal_def ds_def [symmetric] p_def [symmetric] Let_def)
    have "digits_val 0 (''0'' @ replicate (nat (- p)) (CHR ''0'') @ ds) = Some c"
      using digits_val_lead [of "Suc (nat (- p))" ds] ds(2) by simp
    then have "parse_number (render_decimal c x) = Some (c, - int (length (replicate (nat (- p)) (CHR ''0'') @ ds)))"
      unfolding r using ds zero by (intro parse_number_point) auto
    moreover have "- int (length (replicate (nat (- p)) (CHR ''0'') @ ds)) = x" using 3 by (simp add: p_def)
    ultimately show thesis using assms that by simp
  qed
qed

lemma strip_zeros_value:
  "0 < c \<Longrightarrow> strip_zeros c x = (c', x') \<Longrightarrow>
    0 < c' \<and> c' mod 10 \<noteq> 0 \<and> real c' * 10 powi x' = real c * 10 powi x"
proof (induction c x rule: strip_zeros.induct)
  case (1 c x)
  show ?case
  proof (cases "c mod 10 = 0")
    case True
    then have "real c = real (c div 10) * 10" by (metis Suc_times_mod_eq dvd_div_mult_self mod_0_imp_dvd of_nat_mult of_nat_numeral)
    moreover have "0 < c div 10" using True 1(2) by presburger
    ultimately show ?thesis
      using 1 True by (simp add: strip_zeros.simps [of c] power_int_add mult.assoc)
  next
    case False
    then show ?thesis using 1 by (simp add: strip_zeros.simps [of c])
  qed
qed

lemma last_show_nat: "last (show_nat n) = digit_char (n mod 10)"
  by (cases "n < 10") (simp_all add: show_nat_small show_nat_step)

lemma digit_char_nonzero: "d < 10 \<Longrightarrow> d \<noteq> 0 \<Longrightarrow> digit_char d \<noteq> CHR ''0''"
proof
  assume d: "d < 10" "d \<noteq> 0" "digit_char d = CHR ''0''"
  have "digit_val (CHR ''0'') = Some 0" by (simp add: digit_val_def)
  then show False using d digit_val_digit_char [OF d(1)] by simp
qed

lemma point_not_digit [simp]: "\<not> is_digit (CHR ''.'')"
  by (simp add: is_digit_iff)

lemma zero_is_digit [simp]: "is_digit (CHR ''0'')"
  by (simp add: is_digit_iff)

lemma render_decimal_last:
  assumes "c mod 10 \<noteq> 0"
  shows "(\<forall>ch \<in> set (render_decimal c x). is_digit ch) \<or> last (render_decimal c x) = digit_char (c mod 10)"
proof (cases "0 \<le> x")
  case True
  then show ?thesis using show_nat_digits by (auto simp: render_decimal_def Let_def)
next
  case False
  then have "nat (int (length (show_nat c)) + x) < length (show_nat c)"
    by (cases "show_nat c") auto
  then show ?thesis
    using False by (simp add: render_decimal_def Let_def last_show_nat [symmetric])
qed

lemma trim_end_char_id: "s = [] \<or> last s \<noteq> ch \<Longrightarrow> trim_end_char ch s = s"
  by (cases s rule: rev_cases) (simp_all add: trim_end_char_def)

lemma render_decimal_head: "render_decimal c x \<noteq> [] \<and> is_digit (hd (render_decimal c x))"
proof -
  obtain ch cs where "show_nat c = ch # cs" "is_digit ch" by (rule show_nat_Cons)
  then show ?thesis by (auto simp: render_decimal_def Let_def take_Cons' )
qed

text \<open>What \<open>format_float\<close> gives is a sign and a text of digits that reads as the absolute value.\<close>

lemma format_float_positive:
  assumes "canonical m e" "0 < m"
  obtains c x where "0 < c" "c mod 10 \<noteq> 0" "f64_of_decimal neg c x = F_Fin neg m e"
    "show_f64 (F_Fin neg m e) = (if neg then ''-'' else []) @ render_decimal c x"
proof -
  obtain c0 x0 where s0: "shortest m e [1..<18] = (c0, x0)" by fastforce
  obtain c x where s1: "strip_zeros c0 x0 = (c, x)" by fastforce
  have r: "f64_of_decimal False c0 x0 = F_Fin False m e"
    by (rule shortest_reads [OF _ candidate_17 [OF assms] s0]) simp
  then have c0: "0 < c0" using assms(2) by (cases c0) (simp_all add: f64_of_decimal_def)
  note v = strip_zeros_value [OF c0 s1]
  have "f64_of_decimal neg c x = F_Fin neg m e"
    using f64_of_decimal_cong [of c c0 x x0 neg] f64_of_decimal_sign [OF r] v c0 by simp
  then show thesis using that [of c x] v assms(2) s0 s1 by simp
qed

lemma format_float_finite:
  assumes "canonical m e"
  obtains ds c x where "format_float (F_Fin neg m e) = (if neg then ''-'' else []) @ ds"
    "ds \<noteq> []" "is_digit (hd ds)" "parse_number ds = Some (c, x)" "f64_of_decimal neg c x = F_Fin neg m e"
proof (cases "m = 0")
  case True
  then have "e = - 1074" using assms by (auto simp: canonical_def)
  moreover have "parse_number ''0'' = Some (0, 0)" by code_simp
  ultimately show thesis
    using True that [of "''0''" 0 0] by (simp add: format_float_def is_nan_def f64_of_decimal_def)
next
  case False
  then obtain c x where c: "0 < c" "c mod 10 \<noteq> 0" "f64_of_decimal neg c x = F_Fin neg m e"
    "show_f64 (F_Fin neg m e) = (if neg then ''-'' else []) @ render_decimal c x"
    using format_float_positive [OF assms] by blast
  define ds where "ds = render_decimal c x"
  have ds: "ds \<noteq> []" "is_digit (hd ds)" using render_decimal_head by (simp_all add: ds_def)
  have "digit_char (c mod 10) \<noteq> CHR ''.''"
    using is_digit_digit_char [of "c mod 10"] point_not_digit by (metis mod_less_divisor zero_less_numeral)
  then have trim: "CHR ''.'' \<in> set ds \<Longrightarrow> last ds \<noteq> CHR ''0'' \<and> last ds \<noteq> CHR ''.''"
    using render_decimal_last [OF c(2), of x] digit_char_nonzero [of "c mod 10"] c(2)
      point_not_digit by (auto simp: ds_def)
  have "format_float (F_Fin neg m e) = (if neg then ''-'' else []) @ ds"
    unfolding format_float_def c(4) ds_def [symmetric] using trim ds(1)
    by (auto simp: is_nan_def Let_def trim_end_char_id)
  moreover obtain c' x' where p: "parse_number ds = Some (c', x')" "0 < c'"
    "real c' * 10 powi x' = real c * 10 powi x"
    unfolding ds_def by (rule parse_render_decimal [OF c(1)])
  moreover have "f64_of_decimal neg c' x' = F_Fin neg m e"
    using f64_of_decimal_cong [OF p(2) c(1) p(3)] c(3) by simp
  ultimately show thesis using that ds by blast
qed

theorem parse_format_float:
  assumes "wf_f64 f"
  shows "parse_f64 (format_float f) = Some f"
proof (cases f)
  case F_NaN
  show ?thesis unfolding F_NaN by code_simp
next
  case (F_Inf neg)
  have "parse_f64 (format_float (F_Inf True)) = Some (F_Inf True)"
    "parse_f64 (format_float (F_Inf False)) = Some (F_Inf False)" by code_simp+
  then show ?thesis unfolding F_Inf by (cases neg) simp_all
next
  case (F_Fin neg m e)
  then have "canonical m e" using assms by simp
  then obtain ds c x where d: "format_float (F_Fin neg m e) = (if neg then ''-'' else []) @ ds"
    "ds \<noteq> []" "is_digit (hd ds)" "parse_number ds = Some (c, x)" "f64_of_decimal neg c x = F_Fin neg m e"
    by (rule format_float_finite)
  obtain ch cs where ds: "ds = ch # cs" "is_digit ch" using d(2,3) by (cases ds) auto
  then show ?thesis
    using d(4,5) digit_not_special [OF ds(2)] unfolding F_Fin d(1)
    by (cases neg) (simp_all add: parse_f64_def Let_def)
qed

end
