(* ===== verification/Typed_Arrays.thy ===== *)
theory Typed_Arrays imports Client_Laws Commands F64_Laws begin

text \<open>
  The helpers of \<open>src/parser.rs\<close> for arrays of one type, on any buffered reader: what a peer encodes
  element by element is what they return, and what follows stays on the stream. And the three
  decoders of members with scores: the helper, the typed command and the method of the client.
\<close>

lemma reserve_count: "can_reserve E (n * k) \<Longrightarrow> 0 < k \<Longrightarrow> as_u64 (int n) = n"
proof -
  assume "can_reserve E (n * k)" "0 < k"
  then have "n \<le> n * k" "n * k < 2 ^ 63" by (auto dest: can_reserve_bounds)
  then have "n < 2 ^ 63" by linarith
  then show ?thesis by (simp add: as_u64_nonneg in_i64_def)
qed

text \<open>An array that lists members and scores: strings, the second of each two a number.\<close>

fun lists_scores :: "Value list \<Rightarrow> Z list \<Rightarrow> bool" where
  "lists_scores [] [] = True"
| "lists_scores (v # w # vs) (z # zs) =
    (value_str v = Some (zmember z) \<and>
     (\<exists>x. value_str w = Some x \<and> parse_f64 x = Some (score z)) \<and> lists_scores vs zs)"
| "lists_scores _ _ = False"

section \<open>Delivering\<close>

context buf_reader begin

text \<open>An operation that reads exactly these bytes and returns this value, whatever follows.\<close>

definition delivers :: "('s \<Rightarrow> ('e, 'a) outcome \<times> 's) \<Rightarrow> bytes \<Rightarrow> 'a \<Rightarrow> bool" where
  "delivers item enc a \<longleftrightarrow>
    (\<forall>m s rest. m \<le> length rest \<longrightarrow> covers m s (enc @ rest) \<longrightarrow>
      (\<exists>t. item s = (Ok a, t) \<and> covers m t rest))"

lemma deliversD:
  "delivers item enc a \<Longrightarrow> covers m s (enc @ rest) \<Longrightarrow> m \<le> length rest \<Longrightarrow>
    \<exists>t. item s = (Ok a, t) \<and> covers m t rest"
  unfolding delivers_def by blast

lemma delivers_reply:
  assumes "fits E v" "v \<noteq> VNil"
  shows "delivers (parse_reply E R) (encode_value v) v"
  unfolding delivers_def
proof (intro allI impI)
  fix m s rest
  assume m: "m \<le> length rest" and c: "covers m s (encode_value v @ rest)"
  have "as_result v = Ok v" using assms(2) by (cases v) auto
  then have "parse_reply E byte_reader (encode_value v @ rest) = (Ok v, rest)"
    using parse_encoded [OF assms(1)] by simp
  then show "\<exists>t. parse_reply E R s = (Ok v, t) \<and> covers m t rest"
    using parse_reply_sim c m by simp
qed

lemma delivers_then:
  assumes "delivers f enc a" "delivers (g a) enc' b"
  shows "delivers (\<lambda>s. and_then (f s) g) (enc @ enc') b"
  unfolding delivers_def
proof (intro allI impI)
  fix m s rest
  assume m: "m \<le> length rest" and c: "covers m s ((enc @ enc') @ rest)"
  obtain t where t: "f s = (Ok a, t)" "covers m t (enc' @ rest)"
    using deliversD [OF assms(1), of m s "enc' @ rest"] c m by auto
  obtain u where "g a t = (Ok b, u)" "covers m u rest"
    using deliversD [OF assms(2) t(2) m] by blast
  then show "\<exists>u. and_then (f s) g = (Ok b, u) \<and> covers m u rest" using t(1) by simp
qed

lemma delivers_pure: "delivers (\<lambda>s. (Ok a, s)) [] a"
  by (simp add: delivers_def)

lemma delivers_map:
  assumes "delivers f enc a" "\<And>s. g a s = (Ok b, s)"
  shows "delivers (\<lambda>s. and_then (f s) g) enc b"
  using delivers_then [OF assms(1), of g "[]" b] delivers_pure [of b] assms(2)
  by (simp add: delivers_def)

lemma delivers_loop:
  "list_all2 (delivers item) encs xs \<Longrightarrow>
    delivers (parse_loop item add (length xs) acc) (concat encs) (foldl add acc xs)"
proof (induction xs arbitrary: encs acc)
  case Nil
  then show ?case using delivers_pure [of acc] by simp
next
  case (Cons x xs)
  then obtain enc encs' where e: "encs = enc # encs'" "delivers item enc x"
    "list_all2 (delivers item) encs' xs" by (auto simp: list_all2_Cons2)
  from delivers_then [of item enc x "\<lambda>a s. parse_loop item add (length xs) (add acc a) s" "concat encs'",
      OF e(2) Cons.IH [OF e(3), of "add acc x"]]
  show ?case by (simp add: e(1))
qed

section \<open>The elements\<close>

lemma delivers_string:
  assumes "fits E v" "value_str v = Some x"
  shows "delivers (parse_str_item E R) (encode_value v) x"
  unfolding parse_str_item_def
  by (rule delivers_map [OF delivers_reply [OF assms(1)]]) (use assms(2) in auto)

lemma delivers_bool:
  assumes "in_i64 i"
  shows "delivers (parse_bool_item E R) (encode_value (VInt i)) (i = 1)"
  unfolding parse_bool_item_def
  by (rule delivers_map [OF delivers_reply]) (use assms in auto)

lemma delivers_pair:
  assumes "fits E v" "value_str v = Some x" "fits E w" "value_str w = Some y"
  shows "delivers (parse_pair_item E R) (encode_value v @ encode_value w) (x, y)"
proof -
  have "v \<noteq> VNil" "w \<noteq> VNil" using assms(2,4) by auto
  then show ?thesis
    unfolding parse_pair_item_def
    by (intro delivers_then [OF delivers_reply [OF assms(1)]] delivers_map [OF delivers_reply [OF assms(3)]])
      (simp_all add: assms(2,4))
qed

lemma delivers_z:
  assumes "fits E v" "value_str v = Some x" "fits E w" "value_str w = Some y" "parse_f64 y = Some f"
  shows "delivers (parse_z_item E R) (encode_value v @ encode_value w) \<lparr>score = f, zmember = x\<rparr>"
  unfolding parse_z_item_def
  by (rule delivers_map [OF delivers_pair [OF assms(1-4)]]) (simp add: assms(5))

section \<open>The arrays\<close>

lemma delivers_after_capacity:
  "r = Ok () \<Longrightarrow> delivers f enc a \<Longrightarrow> delivers (\<lambda>s. and_then (r, s) (\<lambda>_ s. f s)) enc a"
  by (simp add: delivers_def)

lemma delivers_string_slice:
  assumes "list_all2 (\<lambda>v x. fits E v \<and> value_str v = Some x) vs xs" "can_reserve E (length xs * 24)"
  shows "delivers (parse_string_slice E R (int (length xs))) (concat (map encode_value vs)) xs"
proof -
  have "list_all2 (delivers (parse_str_item E R)) (map encode_value vs) xs"
    using assms(1) by (auto simp: list_all2_map1 intro: list_all2_mono delivers_string)
  from delivers_loop [OF this, of "\<lambda>vals x. vals @ [x]" "[]"] show ?thesis
    using reserve_count [OF assms(2)] unfolding parse_string_slice_def foldl_snoc
    by (intro delivers_after_capacity) (simp_all add: with_capacity_def size_of_String_def assms(2))
qed

lemma delivers_bool_slice:
  assumes "\<forall>i \<in> set is. in_i64 i" "can_reserve E (length is)"
  shows "delivers (parse_bool_slice E R (int (length is))) (concat (map (\<lambda>i. encode_value (VInt i)) is))
    (map (\<lambda>i. i = 1) is)"
proof -
  have "list_all2 (delivers (parse_bool_item E R)) (map (\<lambda>i. encode_value (VInt i)) is) (map (\<lambda>i. i = 1) is)"
    using assms(1) by (auto simp: list_all2_map1 list_all2_map2 list_all2_same simp del: encode_value.simps intro: delivers_bool)
  from delivers_loop [OF this, of "\<lambda>vals x. vals @ [x]" "[]"] show ?thesis
    using reserve_count [of E "length is" 1] assms(2) unfolding parse_bool_slice_def foldl_snoc
    by (intro delivers_after_capacity) (simp_all add: with_capacity_def)
qed

text \<open>Keys and values, and members and scores: half as many pairs as elements.\<close>

lemma delivers_string_map:
  assumes "\<forall>(k, v) \<in> set ps. fits E (VBulkString k) \<and> fits E (VBulkString v)"
    and "can_reserve E (max (length ps) (table_bytes E (length ps)))"
  shows "delivers (parse_string_map E R (2 * int (length ps)))
    (concat (map (\<lambda>(k, v). encode_value (VBulkString k) @ encode_value (VBulkString v)) ps))
    (foldl (\<lambda>m (k, v). m(k \<mapsto> v)) Map.empty ps)"
proof -
  have "list_all2 (delivers (parse_pair_item E R))
      (map (\<lambda>(k, v). encode_value (VBulkString k) @ encode_value (VBulkString v)) ps) ps"
    using assms(1)
    by (auto simp: list_all2_map1 list_all2_same simp del: encode_value.simps intro!: delivers_pair)
  from delivers_loop [OF this] show ?thesis
    using reserve_count [of E "length ps" 1] assms(2) unfolding parse_string_map_def
    by (intro delivers_after_capacity) (simp_all add: map_capacity_def can_reserve_def half_i64_def)
qed

lemma delivers_scores:
  "lists_scores vs zs \<Longrightarrow> \<forall>v \<in> set vs. fits E v \<Longrightarrow>
    length vs = 2 * length zs \<and>
    (\<exists>encs. concat encs = concat (map encode_value vs) \<and> list_all2 (delivers (parse_z_item E R)) encs zs)"
proof (induction vs zs rule: lists_scores.induct)
  case (2 v w vs z zs)
  then obtain encs where e: "concat encs = concat (map encode_value vs)"
    "list_all2 (delivers (parse_z_item E R)) encs zs" "length vs = 2 * length zs" by auto
  obtain x where x: "value_str w = Some x" "parse_f64 x = Some (score z)" using 2(2) by auto
  have "delivers (parse_z_item E R) (encode_value v @ encode_value w) z"
    using delivers_z [of E v "zmember z" w x "score z"] x 2(2,3) by (cases z) simp
  then show ?case
    using e by (intro conjI exI [of _ "(encode_value v @ encode_value w) # encs"]) simp_all
qed (simp_all)

lemma delivers_z_slice:
  assumes "lists_scores vs zs" "\<forall>v \<in> set vs. fits E v" "can_reserve E (length zs * 32)"
  shows "delivers (parse_z_slice E R (int (length vs))) (concat (map encode_value vs)) zs"
proof -
  obtain encs where e: "length vs = 2 * length zs" "concat encs = concat (map encode_value vs)"
    "list_all2 (delivers (parse_z_item E R)) encs zs"
    using delivers_scores [OF assms(1,2)] by auto
  from delivers_loop [OF e(3), of "\<lambda>vals x. vals @ [x]" "[]"] show ?thesis
    using reserve_count [OF assms(3)] assms(3) unfolding parse_z_slice_def foldl_snoc e(2)
    by (intro delivers_after_capacity) (simp_all add: with_capacity_def size_of_Z_def half_i64_def e(1))
qed

end

section \<open>Members with scores\<close>

lemma z_pairs_scored: "lists_scores vs zs \<Longrightarrow> z_pairs vs = Ok zs"
  by (induction vs zs rule: lists_scores.induct) auto

text \<open>What the typed command accepts is such a list.\<close>

lemma pair_loop_scored:
  assumes "pair_loop (\<lambda>m s acc. map_ok (\<lambda>f. acc @ [\<lparr>score = f, zmember = m\<rparr>]) (ok_or e (parse_f64 s))) vs acc = Ok zs"
    and "even (length vs)"
  shows "\<exists>ys. zs = acc @ ys \<and> lists_scores vs ys"
  using assms
proof (induction vs arbitrary: acc rule: induct_list012)
  case (3 x y rest)
  then obtain m s f where x: "value_str x = Some m" "value_str y = Some s" "parse_f64 s = Some f"
    and l: "pair_loop (\<lambda>m s acc. map_ok (\<lambda>f. acc @ [\<lparr>score = f, zmember = m\<rparr>]) (ok_or e (parse_f64 s))) rest
      (acc @ [\<lparr>score = f, zmember = m\<rparr>]) = Ok zs"
    by (auto simp: bind_outcome_Ok_iff want_string_def map_ok_Ok_iff)
  obtain ys where "zs = (acc @ [\<lparr>score = f, zmember = m\<rparr>]) @ ys" "lists_scores rest ys"
    using 3(1) [OF l] 3(4) by auto
  then show ?case using x by (intro exI [of _ "\<lparr>score = f, zmember = m\<rparr> # ys"]) simp
qed (auto intro: exI [of _ "[]"])

text \<open>On a connection: the bytes that are needed are on their way.\<close>

definition reads_exactly :: "(tcp \<Rightarrow> 'a res \<times> tcp) \<Rightarrow> bytes \<Rightarrow> 'a \<Rightarrow> bool" where
  "reads_exactly item enc a \<longleftrightarrow>
    (\<forall>s rest. tcp_backlog s = enc @ rest \<longrightarrow> length enc \<le> tcp_due s \<longrightarrow>
      (\<exists>t. item s = (Ok a, t) \<and> tcp_backlog t = rest))"

lemma reads_exactlyI: "tcp_io.delivers item enc a \<Longrightarrow> reads_exactly item enc a"
  unfolding reads_exactly_def
proof (intro allI impI)
  fix s rest
  assume d: "tcp_io.delivers item enc a" and b: "tcp_backlog s = enc @ rest" "length enc \<le> tcp_due s"
  have "tcp_io.covers (length rest) s (enc @ rest)" using b by (simp add: tcp_io.covers_def)
  from tcp_io.deliversD [OF d this] show "\<exists>t. item s = (Ok a, t) \<and> tcp_backlog t = rest"
    by (auto simp: tcp_io.covers_def)
qed

end
