(* ===== verification/Commands_Props.thy ===== *)
theory Commands_Props imports Typed_Arrays Client_Props begin

text \<open>
  The properties of the typed command objects and of the helpers for arrays, how they compare with the
  methods of the client that do the same work, and the round trip of floating-point numbers.
\<close>

section \<open>SCAN\<close>

text \<open>
  \<open>ScanCmd\<close> and \<open>parse_scan_reply\<close> agree on every reply: a fresh command that parses it has the
  cursor and the keys that the function returns, and one that rejects it does so with the same error.
\<close>

theorem scan_command_agrees_with_parser:
  assumes "parse_reply E R s = (Ok v, t)"
  shows "parse_scan_reply E R s =
    (case ScanCmd_parse v (ScanCmd_new args) of (r, c) \<Rightarrow> (bind_outcome r (\<lambda>_. ScanCmd_result c), t))"
  using assms
  by (cases v)
    (auto simp: parse_scan_reply_def ScanCmd_parse_def ScanCmd_result_def base_result_def ScanCmd_new_def
      BaseCmd_new_def scan_cursor_def split: Value.splits option.splits)

theorem scan_command_agrees_with_parser_witness:
  "parse_scan_reply sample_env byte_reader (encode_value (VArray [VBulkString ''5'', VArray [VBulkString ''k'', VNil]])) =
    (Ok (5, [''k'']), [])"
proof -
  have "fits sample_env (VArray [VBulkString ''5'', VArray [VBulkString ''k'', VNil]])"
    using fits_sample_string [of "''5''"] fits_sample_string [of "''k''"] by (simp add: can_reserve_sample)
  from parse_encoded [OF this, of "[]"]
  have p: "parse_reply sample_env byte_reader (encode_value (VArray [VBulkString ''5'', VArray [VBulkString ''k'', VNil]])) =
      (Ok (VArray [VBulkString ''5'', VArray [VBulkString ''k'', VNil]]), [])" by simp
  have "parse_i64 ''5'' = Some 5" by (simp add: parse_i64_def digit_val_def in_i64_def)
  then show ?thesis
    using scan_command_agrees_with_parser [OF p, of "[]"]
    by (simp add: ScanCmd_parse_def ScanCmd_result_def base_result_def ScanCmd_new_def BaseCmd_new_def
        scan_keys_def List.map_filter_def)
qed

section \<open>Maps\<close>

lemma pair_loop_string_pairs:
  "pair_loop (\<lambda>k v m. Ok (m(k \<mapsto> v))) arr m =
    (case string_pairs arr of
       Some ps \<Rightarrow> Ok (foldl (\<lambda>m (k, v). m(k \<mapsto> v)) m ps)
     | None \<Rightarrow> Err (redis_err ''expected string''))"
proof (induction arr arbitrary: m rule: string_pairs.induct)
  case (1 x y rest)
  then show ?case
    by (cases "value_str x"; cases "value_str y")
      (auto simp: want_string_def simp del: fun_upd_apply split: option.splits)
qed simp_all

text \<open>
  \<open>StringMapCmd\<close> and \<open>hget_all\<close> agree on arrays that are pairs of strings; on the others the
  command object reports an error where \<open>hget_all\<close> never returns.
\<close>

theorem string_map_against_hget_all:
  assumes "process_cmd E N [''HGETALL'', k] cl = (Ok (VArray arr), cl')"
  shows "(case fst (StringMapCmd_parse (VArray arr) c) of
            Ok u \<Rightarrow> map_ok Some (fst (client_hget_all E N k cl)) =
                      Ok (cmd_val (snd (StringMapCmd_parse (VArray arr) c)))
          | e \<Rightarrow> e = Err (redis_err ''expected string'') \<and> fst (client_hget_all E N k cl) = Hang)"
proof -
  have h: "fst (client_hget_all E N k cl) = as_string_map arr"
    using assms by (simp add: client_hget_all_def reply_def as_array_def)
  show ?thesis
    by (cases "string_pairs arr")
      (simp_all add: h StringMapCmd_parse_def want_array_def pair_loop_string_pairs store_def
        as_string_map_pairs)
qed

theorem string_map_against_hget_all_witness:
  "fst (client_hget_all sample_env tcp_net ''k''
      (sample_client (sample_peer (encode_value (VArray [VInt 1, VInt 2]))))) = Hang"
proof -
  have "fits sample_env (VArray [VInt 1, VInt 2])" by (simp add: can_reserve_sample in_i64_def)
  moreover have "encode_value (VArray [VInt 1, VInt 2]) \<noteq> []" by simp
  ultimately obtain cl' where p: "process_cmd sample_env tcp_net [''HGETALL'', ''k'']
      (sample_client (sample_peer (encode_value (VArray [VInt 1, VInt 2])))) = (Ok (VArray [VInt 1, VInt 2]), cl')"
    using process_cmd_serving [OF sample_served wire_reply_value,
        of "sample_peer (encode_value (VArray [VInt 1, VInt 2]))" "[''HGETALL'', ''k'']"
           "VArray [VInt 1, VInt 2]"] by (auto simp del: encode_value.simps)
  have "fst (StringMapCmd_parse (VArray [VInt 1, VInt 2]) (Cmd_new [])) = Err (redis_err ''expected string'')"
    by (simp add: StringMapCmd_parse_def want_array_def want_string_def store_def)
  then show ?thesis
    using string_map_against_hget_all [OF p, of "Cmd_new []"] by simp
qed

section \<open>Floating-point numbers\<close>

text \<open>
  C13. The text that \<open>format_float\<close> makes of a double, as it goes out in ZADD and INCRBYFLOAT, reads
  back as exactly this double, bit by bit up to the payload of a NaN: sign, zeros, subnormal numbers
  and infinities included.
\<close>

theorem float_text_roundtrip:
  assumes "wf_f64 f"
  shows "parse_f64 (format_float f) = Some f"
  using assms by (rule parse_format_float)

theorem float_text_roundtrip_witness:
  "parse_f64 (format_float (F_Fin True (2 ^ 52 + 1) (- 1))) = Some (F_Fin True (2 ^ 52 + 1) (- 1))"
  by (rule float_text_roundtrip) (simp add: canonical_def)

section \<open>Arrays of one type\<close>

text \<open>
  C24. The helpers for arrays of strings, of booleans and of pairs read exactly the elements that the
  peer has encoded, in whatever pieces they arrive, return them in order (of equal keys the last one
  wins) and leave what follows on the connection.
\<close>

theorem typed_arrays_read_exactly:
  assumes "list_all2 (\<lambda>v x. fits E v \<and> value_str v = Some x) vs xs" "can_reserve E (length xs * 24)"
    and "\<forall>i \<in> set is. in_i64 i" "can_reserve E (length is)"
    and "\<forall>(k, v) \<in> set ps. fits E (VBulkString k) \<and> fits E (VBulkString v)"
    and "can_reserve E (max (length ps) (table_bytes E (length ps)))"
  shows "reads_exactly (parse_string_slice E tcp_net (int (length xs))) (concat (map encode_value vs)) xs \<and>
    reads_exactly (parse_bool_slice E tcp_net (int (length is)))
      (concat (map (\<lambda>i. encode_value (VInt i)) is)) (map (\<lambda>i. i = 1) is) \<and>
    reads_exactly (parse_string_map E tcp_net (2 * int (length ps)))
      (concat (map (\<lambda>(k, v). encode_value (VBulkString k) @ encode_value (VBulkString v)) ps))
      (foldl (\<lambda>m (k, v). m(k \<mapsto> v)) Map.empty ps)"
  using tcp_io.delivers_string_slice [OF assms(1,2)] tcp_io.delivers_bool_slice [OF assms(3,4)]
    tcp_io.delivers_string_map [OF assms(5,6)] by (intro conjI reads_exactlyI)

theorem typed_arrays_read_exactly_witness:
  "\<exists>t. parse_string_map sample_env tcp_net 4
      (sample_tcp [(0, Data (resp_bulk ''a'' @ resp_bulk ''1'' @ resp_bulk ''a'')), (7, Data (resp_bulk ''2'' @ ''+''))]) =
    (Ok [''a'' \<mapsto> ''2''], t) \<and> tcp_backlog t = ''+''"
proof -
  have r: "can_reserve sample_env (max 2 (table_bytes sample_env 2))"
    by (rule can_reserve_sample) (simp add: sample_env_def)
  have "reads_exactly (parse_string_map sample_env tcp_net 4)
      (concat (map (\<lambda>(k, v). encode_value (VBulkString k) @ encode_value (VBulkString v))
        [(''a'', ''1''), (''a'', ''2'')])) ([''a'' \<mapsto> ''1''](''a'' \<mapsto> ''2''))"
    using typed_arrays_read_exactly [of sample_env "[]" "[]" "[]" "[(''a'', ''1''), (''a'', ''2'')]"]
      fits_sample_string [of "''a''"] fits_sample_string [of "''1''"] fits_sample_string [of "''2''"]
      can_reserve_sample [of 0] r by (simp add: numeral_2_eq_2)
  then show ?thesis
    unfolding reads_exactly_def by (simp add: resp_bulk_def)
qed

text \<open>
  C14. The three decoders of a sorted set with scores agree on every well-formed reply, whatever
  texts the server uses for the floats: an array of even length which the typed command accepts, with
  the members and scores \<open>zs\<close>, gives the same \<open>zs\<close> from the method of the client, and the helper of the
  parser reads exactly \<open>zs\<close> from its encoding. (On arrays that the typed command rejects the three
  differ: the method of the client skips elements that are not strings.)
\<close>

theorem sorted_set_decoders_agree:
  assumes "ZSliceCmd_parse (VArray vs) c = (Ok (), c')" "even (length vs)"
    and "\<forall>v \<in> set vs. fits E v" "can_reserve E (length vs * 32)"
  shows "\<exists>zs. c' = c\<lparr>cmd_val := Some zs\<rparr> \<and> array_to_z_vec vs = Ok zs \<and>
    reads_exactly (parse_z_slice E tcp_net (int (length vs))) (concat (map encode_value vs)) zs"
proof -
  obtain zs where zs: "pair_loop (\<lambda>m s acc. map_ok (\<lambda>f. acc @ [\<lparr>score = f, zmember = m\<rparr>])
      (ok_or (redis_err ''invalid float'') (parse_f64 s))) vs [] = Ok zs" "c' = c\<lparr>cmd_val := Some zs\<rparr>"
    using assms(1) by (auto simp: ZSliceCmd_parse_def want_array_def store_def and_then_Ok_iff map_ok_Ok_iff)
  have l: "lists_scores vs zs" using pair_loop_scored [OF zs(1) assms(2)] by simp
  have "length zs * 32 \<le> length vs * 32" using tcp_io.delivers_scores [OF l assms(3)] by simp
  then have "can_reserve E (length zs * 32)" using assms(4) by (simp add: can_reserve_def)
  from tcp_io.delivers_z_slice [OF l assms(3) this]
  show ?thesis
    using zs(2) z_pairs_scored [OF l] reads_exactlyI by (auto simp: array_to_z_vec_pairs)
qed

theorem sorted_set_decoders_agree_witness:
  "array_to_z_vec [VBulkString ''m'', VStatus ''-inf''] = Ok [\<lparr>score = F_Inf True, zmember = ''m''\<rparr>]"
proof -
  have "format_float (F_Inf True) = ''-inf''" by code_simp
  then have f: "parse_f64 ''-inf'' = Some (F_Inf True)" using parse_format_float [of "F_Inf True"] by simp
  have "ZSliceCmd_parse (VArray [VBulkString ''m'', VStatus ''-inf'']) (ZSliceCmd_new []) =
      (Ok (), (ZSliceCmd_new [])\<lparr>cmd_val := Some [\<lparr>score = F_Inf True, zmember = ''m''\<rparr>]\<rparr>)"
    using f by (simp add: ZSliceCmd_parse_def want_array_def store_result want_string_def)
  from sorted_set_decoders_agree [OF this, of sample_env] show ?thesis
    using fits_sample_string [of "''m''"] utf8_valid_ascii [of "''-inf''"] can_reserve_sample [of 64]
    by (auto simp: line_text_def MAX_LINE_LEN_def ZSliceCmd_new_def Cmd_new_def)
qed

section \<open>Durations\<close>

lemma duration_reply:
  assumes "in_i64 i" "in_u64 (precision c)"
  shows "DurationCmd_parse E (VInt i) c =
    (if i < 0 then (Ok (), c\<lparr>cmd_val := Some 0\<rparr>)
     else if in_u64 (nat i * precision c) then (Ok (), c\<lparr>cmd_val := Some (nat i * precision c)\<rparr>)
     else if overflow_checks E then (Panic, c)
     else (Ok (), c\<lparr>cmd_val := Some (nat i * precision c mod 2 ^ 64)\<rparr>))"
  using assms as_u64_nonneg [of i]
  by (auto simp: DurationCmd_parse_def want_int_def mul_u64_def store_def in_u64_def)

text \<open>A fresh typed command that is given a reply and asked for its result.\<close>

definition typed_duration :: "env \<Rightarrow> nat \<Rightarrow> string list \<Rightarrow> Value \<Rightarrow> nat res" where
  "typed_duration E prec args v =
    (case DurationCmd_parse E v (DurationCmd_new prec args) of
       (r, c) \<Rightarrow> bind_outcome r (\<lambda>_. DurationCmd_result c))"

text \<open>It agrees with the method of the client, which does not multiply in 64 bits, as long as these are enough.\<close>

lemma typed_duration_agrees:
  assumes "in_i64 i" "in_u64 prec" "0 < prec" "\<And>n. unit_of n = n * prec"
  shows "typed_duration E prec args (VInt i) = as_duration unit_of (VInt i) \<longleftrightarrow> in_u64 (nat i * prec)"
proof -
  define c where "c = DurationCmd_new prec args"
  have c: "precision c = prec" "DurationCmd_result (c\<lparr>cmd_val := Some n\<rparr>) = Ok n" for n
    by (simp_all add: c_def DurationCmd_new_def DurationCmd_result_def result_required_def BaseCmd_new_def
        base_result_def)
  have u: "as_duration unit_of (VInt i) = Ok (nat i * prec)"
    using assms(1,4) as_u64_nonneg [of i] by (simp add: as_duration_def as_int_def)
  have m: "n mod 2 ^ 64 \<noteq> n" if "\<not> in_u64 n" for n
  proof -
    have "n mod 2 ^ 64 < 2 ^ 64" by simp
    then show ?thesis using that unfolding in_u64_def by linarith
  qed
  show ?thesis
    using m [of "nat i * prec"] duration_reply [OF assms(1), of c E] assms(2) c u
    by (auto simp: typed_duration_def c_def [symmetric] in_u64_def)
qed

text \<open>
  C40. The typed command for TTL and PTTL agrees with \<open>ttl\<close> and \<open>pttl\<close> of the client on a reply exactly
  as long as the time to live is at most 18446744073 seconds, or 18446744073709 milliseconds (584
  years); for every longer one it gives another duration, or panics where overflow is checked, since
  it multiplies in 64 bits.
\<close>

theorem typed_ttl_agrees_up_to:
  assumes "in_i64 i"
  shows "(typed_duration E (10 ^ 9) args (VInt i) = as_duration from_secs (VInt i) \<longleftrightarrow> i \<le> 18446744073) \<and>
    (typed_duration E (10 ^ 6) args (VInt i) = as_duration from_millis (VInt i) \<longleftrightarrow> i \<le> 18446744073709)"
  using typed_duration_agrees [OF assms, of "10 ^ 9" from_secs E args]
    typed_duration_agrees [OF assms, of "10 ^ 6" from_millis E args]
  by (auto simp: from_secs_def from_millis_def in_u64_def)

theorem typed_ttl_agrees_up_to_witness:
  "typed_duration sample_env (10 ^ 9) [''TTL'', ''k''] (VInt 18446744074) \<noteq> as_duration from_secs (VInt 18446744074)"
  using typed_ttl_agrees_up_to [of 18446744074 sample_env "[''TTL'', ''k'']"] by (simp add: in_i64_def)

end
