(* ===== verification/Unit_Tests.thy ===== *)
theory Unit_Tests imports Client_Props begin

text \<open>
  The unit tests of \<open>src/parser.rs\<close>, \<open>src/error.rs\<close> and \<open>src/client.rs\<close> on the model: each test is a
  definition, and that it passes is a lemma. \<open>make_reader\<close> of the tests is a reader that has all the
  bytes; \<open>unwrap\<close> of an error would be a panic, so the tests compare whole outcomes.
\<close>

section \<open>The serializer\<close>

definition test_append_args :: bool where
  "test_append_args \<longleftrightarrow> append_args sample_env [] [''SET'', ''key'', ''value''] =
    ''*3'' @ CRLF @ ''$3'' @ CRLF @ ''SET'' @ CRLF @ ''$3'' @ CRLF @ ''key'' @ CRLF @ ''$5'' @ CRLF @ ''value'' @ CRLF"

definition test_append_args_empty :: bool where
  "test_append_args_empty \<longleftrightarrow> append_args sample_env [] [] = ''*0'' @ CRLF"

definition test_append_args_single :: bool where
  "test_append_args_single \<longleftrightarrow>
    append_args sample_env [] [''PING''] = ''*1'' @ CRLF @ ''$4'' @ CRLF @ ''PING'' @ CRLF"

lemma show_nat_4: "show_nat 4 = ''4''" "show_nat (Suc (Suc (Suc 0))) = ''3''" "show_nat (Suc (Suc (Suc (Suc 0)))) = ''4''"
  "show_nat (Suc (Suc (Suc (Suc (Suc 0))))) = ''5''"
  by code_simp+

lemma append_args_tests: test_append_args test_append_args_empty test_append_args_single
  by (simp_all add: test_append_args_def test_append_args_empty_def test_append_args_single_def
      append_args_command resp_command_def resp_bulk_def show_nat_4)

section \<open>The parser\<close>

definition parses_to :: "bytes \<Rightarrow> Value res \<Rightarrow> bool" where
  "parses_to data r \<longleftrightarrow> fst (parse_reply sample_env byte_reader data) = r"

definition test_parse_reply_status :: bool where
  "test_parse_reply_status \<longleftrightarrow> parses_to (''+OK'' @ CRLF) (Ok (VStatus ''OK''))"

definition test_parse_reply_integer :: bool where
  "test_parse_reply_integer \<longleftrightarrow> parses_to ('':42'' @ CRLF) (Ok (VInt 42))"

definition test_parse_reply_bulk_string :: bool where
  "test_parse_reply_bulk_string \<longleftrightarrow>
    parses_to (''$5'' @ CRLF @ ''hello'' @ CRLF) (Ok (VBulkString ''hello''))"

definition test_parse_reply_bulk_string_empty :: bool where
  "test_parse_reply_bulk_string_empty \<longleftrightarrow> parses_to (''$0'' @ CRLF @ CRLF) (Ok (VBulkString []))"

definition test_parse_reply_nil_bulk :: bool where
  "test_parse_reply_nil_bulk \<longleftrightarrow> parses_to (''$-1'' @ CRLF) (Err ENil)"

definition test_parse_reply_nil_array :: bool where
  "test_parse_reply_nil_array \<longleftrightarrow> parses_to (''*-1'' @ CRLF) (Err ENil)"

definition test_parse_reply_error :: bool where
  "test_parse_reply_error \<longleftrightarrow>
    (case fst (parse_reply sample_env byte_reader (''-ERR unknown command'' @ CRLF)) of
       Err e \<Rightarrow> str_contains (Error_fmt e) ''unknown command''
     | _ \<Rightarrow> False)"

definition test_parse_reply_array :: bool where
  "test_parse_reply_array \<longleftrightarrow>
    parses_to (''*2'' @ CRLF @ ''$3'' @ CRLF @ ''foo'' @ CRLF @ ''$3'' @ CRLF @ ''bar'' @ CRLF)
      (Ok (VArray [VBulkString ''foo'', VBulkString ''bar'']))"

definition test_parse_reply_array_empty :: bool where
  "test_parse_reply_array_empty \<longleftrightarrow> parses_to (''*0'' @ CRLF) (Ok (VArray []))"

definition test_read_line_too_long :: bool where
  "test_read_line_too_long \<longleftrightarrow>
    (case fst (read_line byte_reader (replicate 65537 (CHR ''+''))) of
       Err e \<Rightarrow> str_contains (Error_fmt e) ''line too long''
     | _ \<Rightarrow> False)"

lemma parses_to_encoded: "fits sample_env v \<Longrightarrow> parses_to (encode_value v) (as_result v)"
  using parse_encoded [of sample_env v "[]"] by (simp add: parses_to_def)

lemma parse_reply_tests:
  test_parse_reply_status test_parse_reply_integer test_parse_reply_bulk_string
  test_parse_reply_bulk_string_empty test_parse_reply_nil_bulk test_parse_reply_array test_parse_reply_array_empty
proof -
  have i: "show_int 42 = ''42''" by code_simp
  show test_parse_reply_status test_parse_reply_integer test_parse_reply_bulk_string
    test_parse_reply_bulk_string_empty test_parse_reply_nil_bulk test_parse_reply_array test_parse_reply_array_empty
    using parses_to_encoded [of "VStatus ''OK''"] parses_to_encoded [of "VInt 42"]
      parses_to_encoded [of "VBulkString ''hello''"] parses_to_encoded [of "VBulkString []"] parses_to_encoded [of VNil]
      parses_to_encoded [of "VArray [VBulkString ''foo'', VBulkString ''bar'']"] parses_to_encoded [of "VArray []"]
    by (simp_all add: test_parse_reply_status_def test_parse_reply_integer_def test_parse_reply_bulk_string_def
        test_parse_reply_bulk_string_empty_def test_parse_reply_nil_bulk_def test_parse_reply_array_def
        test_parse_reply_array_empty_def utf8_valid_ascii line_text_def MAX_LINE_LEN_def in_i64_def
        can_reserve_sample resp_bulk_def show_nat_4 i)
qed

lemma parse_reply_error_test: test_parse_reply_error
proof -
  have "line_text ''ERR unknown command''" by (simp add: line_text_def MAX_LINE_LEN_def)
  moreover have "utf8_lossy ''ERR unknown command'' = ''ERR unknown command''"
    by (intro utf8_lossy_id utf8_valid_ascii) simp
  ultimately show ?thesis
    using parse_encoded_error [of "''ERR unknown command''" sample_env "[]"]
    by (simp add: test_parse_reply_error_def encode_error_def)
qed

lemma parse_reply_nil_array_test: test_parse_reply_nil_array
proof -
  have "read_line byte_reader (''*-1'' @ CRLF @ []) = (Ok ''*-1'', [])"
    by (rule read_line_text) (simp_all add: MAX_LINE_LEN_def)
  then show ?thesis
    by (simp add: test_parse_reply_nil_array_def parses_to_def whole.parse_reply_eq dispatch_def array_length_def)
qed

lemma read_line_too_long_test: test_read_line_too_long
proof -
  have "replicate 65537 (CHR ''+'') = replicate 65536 (CHR ''+'') @ CHR ''+'' # []"
    using replicate_add [of 65536 1 "CHR ''+''"] by simp
  then obtain t where "read_line byte_reader (replicate 65537 (CHR ''+'')) = (Err (redis_err ''line too long''), t)"
    using whole.read_line_too_long [of "replicate 65537 (CHR ''+'')" "replicate 65536 (CHR ''+'')" "CHR ''+''" "[]"]
    by (auto simp: MAX_LINE_LEN_def)
  then show ?thesis by (simp add: test_read_line_too_long_def redis_error_def)
qed

section \<open>Errors\<close>

definition test_error_display :: bool where
  "test_error_display \<longleftrightarrow>
    Error_fmt ENil = ''redis: nil'' \<and> Error_fmt ETxFailed = ''redis: transaction failed'' \<and>
    Error_fmt EClosed = ''redis: client is closed'' \<and>
    Error_fmt ERateLimited = ''redis: you open connections too fast'' \<and>
    Error_fmt ETimeout = ''timeout'' \<and> Error_fmt (EOther ''custom'') = ''custom''"

definition test_redis_error_from :: bool where
  "test_redis_error_from \<longleftrightarrow>
    (let re = ERedis (RedisError ''ERR foo'') in
     (case re of ERedis e \<Rightarrow> True | _ \<Rightarrow> False) \<and> str_contains (Error_fmt re) ''foo'')"

definition test_from_io_error :: bool where
  "test_from_io_error \<longleftrightarrow>
    (let err = from_io ''refused'' in
     (case err of EIo e \<Rightarrow> True | _ \<Rightarrow> False) \<and> str_contains (Error_fmt err) ''refused'')"

definition test_redis_error_helper :: bool where
  "test_redis_error_helper \<longleftrightarrow> RedisError_fmt (redis_error ''test message'') = ''test message''"

definition test_error_from_str :: bool where
  "test_error_from_str \<longleftrightarrow>
    (case from_str ''expected status'' of EOther s \<Rightarrow> s = ''expected status'' | _ \<Rightarrow> False)"

lemma error_tests:
  test_error_display test_redis_error_from test_from_io_error test_redis_error_helper test_error_from_str
  by code_simp+

section \<open>The client\<close>

text \<open>The doubles 1.0, 1.5 and 0.0.\<close>

definition f_one :: f64 where
  "f_one = F_Fin False (2 ^ 52) (- 52)"

definition f_one_half :: f64 where
  "f_one_half = F_Fin False (3 * 2 ^ 51) (- 52)"

definition f_zero :: f64 where
  "f_zero = F_Fin False 0 (- 1074)"

definition test_format_float :: bool where
  "test_format_float \<longleftrightarrow>
    format_float f_one = ''1'' \<and> format_float f_one_half = ''1.5'' \<and> format_float f_zero = ''0'' \<and>
    format_float F_NaN = ''nan'' \<and> format_float (F_Inf False) = ''inf'' \<and> format_float (F_Inf True) = ''-inf''"

definition test_client_options_default :: bool where
  "test_client_options_default \<longleftrightarrow>
    (let opts = ClientOptions_default in
     addr opts = DEFAULT_ADDR \<and> db opts = 0 \<and> co_pool_size opts = 10 \<and> password opts = None)"

text \<open>Evaluation of the conversions, one step at a time.\<close>

lemma bit_len_eval:
  "bit_len 0 = 0" "bit_len 1 = 1" "bit_len (Suc 0) = 1" "bit_len (numeral num.One) = 1"
  "bit_len (numeral (num.Bit0 k)) = Suc (bit_len (numeral k))"
  "bit_len (numeral (num.Bit1 k)) = Suc (bit_len (numeral k))"
proof -
  show "bit_len 0 = 0" by (simp add: bit_len.simps [of 0])
  then show "bit_len 1 = 1" by (simp add: bit_len.simps [of "Suc 0"])
  then show "bit_len (Suc 0) = 1" "bit_len (numeral num.One) = 1" by simp_all
  show "bit_len (numeral (num.Bit0 k)) = Suc (bit_len (numeral k))" by (subst bit_len.simps) simp
  show "bit_len (numeral (num.Bit1 k)) = Suc (bit_len (numeral k))" by (subst bit_len.simps) simp
qed

lemma show_nat_two: "show_nat 15 = ''15''" "show_nat 16 = ''16''"
  by code_simp+

lemmas decimal_eval = scale_num_def scale_den_def Let_def f64_of_decimal_def f64_of_ratio_def
  ratio_log2_def round_even_def bit_len_eval show_nat_two

lemmas candidate_eval = candidate_def scale_num_def scale_den_def ratio_log10_def Let_def show_nat_two

lemma decimal_values:
  "f64_of_decimal False (Suc 0) 0 = F_Fin False 4503599627370496 (- 52)"
  "f64_of_decimal False 2 0 = F_Fin False 4503599627370496 (- 51)"
  "f64_of_decimal False 15 (- 1) = F_Fin False 6755399441055744 (- 52)"
  "f64_of_decimal False 16 (- 1) \<noteq> F_Fin False 6755399441055744 (- 52)"
  by (simp_all add: decimal_eval)

lemma candidates:
  "candidate 4503599627370496 (- 52) (Suc 0) = Some (1, 0)"
  "candidate 6755399441055744 (- 52) (Suc 0) = None"
  "candidate 6755399441055744 (- 52) 2 = Some (15, - 1)"
proof -
  have two: "f64_of_decimal False (Suc (Suc 0)) 0 = F_Fin False 4503599627370496 (- 51)"
    using decimal_values(2) by (simp add: numeral_2_eq_2)
  show "candidate 4503599627370496 (- 52) (Suc 0) = Some (1, 0)" "candidate 6755399441055744 (- 52) (Suc 0) = None"
    by (simp_all add: candidate_eval decimal_values two)
  show "candidate 6755399441055744 (- 52) 2 = Some (15, - 1)"
    using decimal_values(4) by (simp add: candidate_eval decimal_values(3))
qed

lemma digit_counts: "[Suc 0..<18] = Suc 0 # [2..<18]" "[2..<18] = 2 # [3..<18]"
  by (simp_all add: upt_conv_Cons)

lemma format_values: "format_float f_one = ''1''" "format_float f_one_half = ''1.5''"
  by (simp_all add: f_one_def f_one_half_def format_float_def is_nan_def Let_def digit_counts candidates
      strip_zeros.simps [of "Suc 0"] strip_zeros.simps [of 15] render_decimal_def show_nat_two trim_end_char_def)

lemma client_tests: test_format_float test_client_options_default
proof -
  have "format_float F_NaN = ''nan''" "format_float (F_Inf False) = ''inf''" "format_float (F_Inf True) = ''-inf''"
    by code_simp+
  moreover have "format_float f_zero = ''0''" by (simp add: format_float_def f_zero_def is_nan_def)
  ultimately show test_format_float using format_values by (simp add: test_format_float_def)
  show test_client_options_default by (simp add: test_client_options_default_def ClientOptions_default_def)
qed

end
