(* ===== verification/Spec2Isabelle.thy ===== *)
theory Spec2Isabelle imports Feature_Props Commands_Props Unit_Tests begin

text \<open>
  A verification development for the crate \<open>rust-redis-rs\<close>, an asynchronous Redis client on tokio.

  \<^bold>\<open>The program.\<close> A command method of the client (\<open>src/client.rs\<close>) takes a connection from a pool
  (\<open>src/pool.rs\<close>), serializes the command (\<open>append_args\<close> of \<open>src/parser.rs\<close>), writes it to a buffered
  TCP stream (\<open>src/connection.rs\<close>), parses the reply from it (\<open>parse_reply\<close>) and gives the connection
  back when the guard is dropped. Pipelines, transactions, subscriptions, scripts and the sentinel
  lookup are built on the pool or on the client; \<open>src/commands.rs\<close> holds typed command objects.

  \<^bold>\<open>Conventions.\<close> A Rust computation is a function that returns an \<open>outcome\<close> (\<open>Prelude\<close>): \<open>Ok\<close>, \<open>Err\<close>,
  \<open>Panic\<close> (a panic, or an allocation that is refused), \<open>Pending\<close> (a future that the environment never
  completes) or \<open>Hang\<close> (a loop of the crate that never ends), paired with the new state of what it
  mutates. \<open>and_then\<close> is the operator \<open>?\<close>. Integers are \<open>int\<close> or \<open>nat\<close> with the range and the casts
  written out; strings and byte vectors are lists of \<open>char\<close>, one per byte; durations are nanoseconds.
  Tracing has no effect on the state and is left out.

  \<^bold>\<open>The theories\<close>, in the order of the code:

  \<^item> \<open>Prelude\<close>: outcomes, integers, generic lemmas. \<open>Errors\<close>: \<open>src/error.rs\<close>.
  \<^item> \<open>Text\<close>, \<open>Utf8\<close>, \<open>F64\<close>: what the crate uses of the standard library: decimal text, UTF-8, and the
    parsing and printing of \<open>f64\<close>; \<open>format_float\<close> of \<open>src/client.rs\<close> is in \<open>F64\<close>. \<open>F64_Laws\<close>: reading
    rounds to the nearest double, seventeen digits are enough, and what is printed reads back.
  \<^item> \<open>Environment\<close>: the parameters: third-party functions (itoa, sha1, hex), the build profile and the
    memory limits.
  \<^item> \<open>Resp\<close>, \<open>Reader\<close>, \<open>Parser\<close>: \<open>src/parser.rs\<close>: the serializer, \<open>read_line\<close> and \<open>read_n\<close>, and
    \<open>parse_reply\<close> with its helpers. \<open>Reader_Laws\<close>, \<open>Parser_Laws\<close>, \<open>Frame\<close>: the contract of a buffered
    reader as the locale \<open>buf_reader\<close>, and what it gives: progress, enough fuel, independence of the
    pieces a reply arrives in, and what reading leaves alone. \<open>Wire\<close>: the protocol from the server's
    side, with the round trips.
  \<^item> \<open>Connection\<close>: \<open>src/connection.rs\<close> over an abstract transport; \<open>Tcp\<close> is a transport whose peer
    follows a script, an interpretation of the locale; \<open>Session\<close> describes a connection that works.
  \<^item> \<open>Pool\<close>: \<open>src/pool.rs\<close> call by call, with the locale \<open>guarded\<close> for what a client relies on;
    \<open>Pool_Concurrent\<close>: the same operations cut at their await points, as a step relation over any
    number of tasks, with the invariants, progress, and the simulation of a call that runs alone;
    \<open>Pool_Owners\<close>: every dialled connection is in at most one place.
  \<^item> \<open>Client\<close>, \<open>Client_Laws\<close>: \<open>src/client.rs\<close>, every command method; \<open>Pipeline\<close>, \<open>Multi\<close>,
    \<open>Batch_Laws\<close>: \<open>src/pipeline.rs\<close> and \<open>src/multi.rs\<close>; \<open>PubSub\<close>, \<open>Script\<close>, \<open>Sentinel\<close>, \<open>Commands\<close>: the
    files of these names. \<open>Typed_Arrays\<close>: the helpers for arrays on any reader that satisfies the
    locale. \<open>Remote\<close>: the server as an arbitrary state machine, and its refinement by the client.
    \<open>Concurrent_Client\<close>: any number of callers that run commands through one pool, cut at the await
    points of \<open>process_cmd\<close>, with the invariant that every connection is in step with its peer.
  \<^item> \<open>Protocol_Props\<close>, \<open>Pool_Props\<close>, \<open>Client_Props\<close>, \<open>Feature_Props\<close>, \<open>Commands_Props\<close> and this theory
    state the properties, each with a concrete instance. \<open>Unit_Tests\<close>: the unit tests of the crate,
    evaluated on the model.

  \<^bold>\<open>State.\<close> A \<open>Connection\<close> is the record \<open>connection\<close> over the state of the transport. A \<open>ConnPool\<close> is
  the record of the same name: the semaphore is its number of free permits, the two mutexes are
  absorbed in the atomicity of the operations (in \<open>Pool_Concurrent\<close> the one on \<open>closed\<close> is explicit,
  since \<open>put\<close> keeps it across an await), and dialling is a parameter, the result of the \<open>n\<close>-th call. A
  guard is a connection in the hands of its user together with a permit. In \<open>Pool\<close> the task that a
  dropped guard spawns runs at once; \<open>Pool_Concurrent\<close> lets it run at any later time.

  \<^bold>\<open>Fuel.\<close> \<open>parse_reply\<close> and the loop over the elements of an array call each other once per level of
  nesting. Their recursion carries a fuel that bounds the depth, started above the number of bytes
  the reader has still to deliver; every level takes a line of at least one byte, so it never runs
  out (\<open>parse_f_enough\<close>, \<open>parse_reply_no_hang\<close>), and the functions satisfy the recursion of the source
  (\<open>parse_reply_eq\<close>, \<open>parse_slice_loop_Suc\<close>). The other loops end by a measure, except the one of
  \<open>hget_all\<close>, a \<open>partial_function\<close> which can spin.

  \<^bold>\<open>The properties.\<close> About the protocol: replies and commands survive the wire in any pieces, every
  reply is well-formed, lines are bounded, reading never spins, and what truncated or malformed
  replies do. About the pool: what \<open>get\<close> serves, permits, one owner per connection, closing, and that
  every schedule brings every call to its end (\<open>Pool_Concurrent\<close> also shows, to tie the two models of
  the pool together, that a call of \<open>get\<close> that runs alone is the sequential one). About the client
  and what is built on it: end-to-end delivery on a working connection, refinement of a server by
  sequences of commands, pipelines and transactions, isolation of concurrent commands that nobody
  gives up from each other, the introduction of a new connection, conversions, batches, scripts,
  subscriptions, sentinels. Some state where the code falls short: a late reply answers the next command, and so
  does the reply to a command that was given up; a timeout in the middle of a message loses its
  header, a nil reply aborts a pipeline, \<open>hget_all\<close> spins, a negative array length panics, an error
  inside an array leaves the rest unread, a closed pool still serves a waiting call, a cancelled
  \<open>close\<close> leaves the idle connections behind, these can outnumber the pool size, and the typed command
  for TTL multiplies in 64 bits.

  \<^bold>\<open>Not modelled.\<close> \<open>peer_addr\<close> and the accessor \<open>pool\<close> (pure access); that clones of a handle share one
  pool is the explicit passing of its state. The socket and the runtime behind the transport; the sign
  and payload of a NaN; exhausted memory other than in the reservations whose size the peer or the
  caller chooses for a reply, and the stack that deeply nested replies need; the sum of sizes
  overflowing \<open>usize\<close> in a pipeline.
\<close>

section \<open>Late replies\<close>

text \<open>Waiting on a connection whose next bytes come after the deadline.\<close>

lemma parse_reply_late:
  assumes "rbuf t = []" "inbound t = (d, Data bs) # rest" "deadline t = Some n" "n < d"
  shows "parse_reply E tcp_net t = (Pending, t\<lparr>deadline := Some 0, inbound := (d - n, Data bs) # rest\<rparr>)"
proof -
  define u where "u = t\<lparr>deadline := Some 0, inbound := (d - n, Data bs) # rest\<rparr>"
  have "tcp_fill t = (Pending, u)" using assms by (cases t) (simp add: tcp_fill_def u_def)
  then have "read_line tcp_net t = (Pending, u)"
    by (simp add: read_line_def read_line_loop.simps [of tcp_net "[]" t])
  then show ?thesis by (simp add: tcp_io.parse_reply_eq u_def)
qed

lemma conn_parse_late:
  assumes "rbuf (stream c) = []" "inbound (stream c) = (d, Data bs) # rest" "read_timeout c = Some n" "n < d"
  shows "conn_parse_reply E tcp_net c =
    (Err ETimeout, c\<lparr>stream := (stream c)\<lparr>deadline := None, inbound := (d - n, Data bs) # rest\<rparr>\<rparr>)"
  using parse_reply_late [of "(stream c)\<lparr>deadline := Some n\<rparr>" d bs rest n E] assms
  by (simp add: conn_parse_reply_def io_timeout_def from_elapsed_def)

text \<open>A reply that was left over is what the next command reads.\<close>

lemma conn_parse_leftover:
  assumes "rbuf (stream c) = []" "inbound (stream c) = (d, Data (encode_value v)) # rest"
    and "read_timeout c = Some n" "d \<le> n" "fits E v"
  shows "\<exists>s. conn_parse_reply E tcp_net c = (as_result v, c\<lparr>stream := s\<rparr>)"
proof -
  define s where "s = (stream c)\<lparr>deadline := Some n\<rparr>"
  have "tcp_io.covers (length (stream_bytes rest)) s (encode_value v @ stream_bytes rest)"
    using assms(1,2,4) by (simp add: tcp_io.covers_def tcp_backlog_def tcp_due_def s_def)
  moreover have "settled (as_result v)" by (cases v) (simp_all add: redis_error_def)
  ultimately obtain t where "parse_reply E tcp_net s = (as_result v, t)"
    using tcp_io.parse_reply_sim [OF parse_encoded [OF assms(5), of "stream_bytes rest"]] by fastforce
  moreover have "as_result v \<noteq> Pending" by (cases v) auto
  ultimately have "conn_parse_reply E tcp_net c = (as_result v, c\<lparr>stream := t\<lparr>deadline := None\<rparr>\<rparr>)"
    using assms(3) by (simp add: conn_parse_reply_def io_timeout_def s_def)
  then show ?thesis by blast
qed

text \<open>A connection that has just been given back is the one that the next command gets.\<close>

lemma with_guard_last:
  assumes "\<not> ConnPool.closed p" "0 < permits p" "idle p = older @ [\<lparr>pc_conn = c, used_at = clock p\<rparr>]"
    and "act (prepare (opts p) c) = (r, c')"
  shows "\<exists>q. with_guard N act p = (r, q)"
proof -
  have "\<not> expired p \<lparr>pc_conn = c, used_at = clock p\<rparr>" using not_expired_now [of "idle p" p] by simp
  then have "usable p = \<lparr>pc_conn = c, used_at = clock p\<rparr> # rev older" using assms(3) by (simp add: usable_def)
  then show ?thesis
    using pool_get_result [OF assms(1,2)] assms(4) by (simp add: with_guard_def)
qed

text \<open>
  C16. A command that runs into the read timeout gives its connection back to the pool although its
  reply is still on the way (only bytes already buffered count as unread). The next command on that
  connection gets the reply of the first.
\<close>

theorem late_reply_answers_next_command:
  assumes "serving cl t" "itoa_decimal E"
    and "opt_read_timeout (opts (client_pool cl)) = Some n"
    and "server t (outbound t) (resp_command args1) = [(d, Data (encode_value v))]" "n < d" "d \<le> 2 * n"
    and "fits E v"
  shows "\<exists>cl1 cl2. process_cmd E tcp_net args1 cl = (Err ETimeout, cl1) \<and>
    process_cmd E tcp_net args2 cl1 = (as_result v, cl2)"
proof -
  define p where "p = client_pool cl"
  obtain older pc where p: "\<not> ConnPool.closed p" "0 < permits p" "idle p = older @ [pc]"
    "stream (pc_conn pc) = t" "\<not> expired p pc" "ready t"
    using assms(1) by (auto simp: serving_def Let_def p_def)
  define c where "c = prepare (opts p) (pc_conn pc)"
  have c: "stream c = t" "read_timeout c = Some n" using p(4) assms(3) by (simp_all add: c_def p_def)
  define bs1 where "bs1 = resp_command args1"
  define bs2 where "bs2 = resp_command args2"
  have ne: "bs1 \<noteq> []" "bs2 \<noteq> []" by (simp_all add: bs1_def bs2_def resp_command_def)
  define t1 where "t1 = written bs1 t"
  have t1: "inbound t1 = [(d, Data (encode_value v))]" "rbuf t1 = []" "wplan t1 = []" "deadline t1 = None"
    using assms(4) p(6) by (simp_all add: t1_def written_def bs1_def ready_def)
  have w1: "conn_write_all tcp_net bs1 c = (Ok (), c\<lparr>stream := t1\<rparr>)"
    using conn_write_ready [of c bs1] p(6) c(1) ne(1) by (simp add: t1_def written_def)
  define t2 where "t2 = t1\<lparr>deadline := None, inbound := [(d - n, Data (encode_value v))]\<rparr>"
  define c2 where "c2 = c\<lparr>stream := t2\<rparr>"
  have "conn_parse_reply E tcp_net (c\<lparr>stream := t1\<rparr>) = (Err ETimeout, c2)"
    using conn_parse_late [of "c\<lparr>stream := t1\<rparr>" d "encode_value v" "[]" n E] t1 c(2) assms(5)
    by (simp add: t2_def c2_def)
  then have r1: "roundtrip E tcp_net args1 c = (Err ETimeout, c2)"
    using w1 assms(2) by (simp add: roundtrip_def append_args_command bs1_def)
  define p1 where "p1 = p\<lparr>idle := older @ [\<lparr>pc_conn = c2, used_at = clock p\<rparr>]\<rparr>"
  have b2: "buffer_size tcp_net c2 = 0" by (simp add: buffer_size_def c2_def t2_def t1)
  have g1: "with_guard tcp_net (roundtrip E tcp_net args1) p = (Err ETimeout, p1)"
    using with_guard_clean [OF p(1,2,3,5), of "roundtrip E tcp_net args1" "Err ETimeout" c2 tcp_net] r1 b2
    by (simp add: c_def p1_def)
  have pc2: "prepare (opts p1) c2 = c2" by (simp add: p1_def c2_def c_def)
  define t3 where "t3 = t2\<lparr>outbound := outbound t2 @ bs2,
    inbound := (d - n, Data (encode_value v)) # server t2 (outbound t2) bs2\<rparr>"
  have t3: "conn_write_all tcp_net bs2 c2 = (Ok (), c2\<lparr>stream := t3\<rparr>)"
    "rbuf t3 = []" "inbound t3 = (d - n, Data (encode_value v)) # server t2 (outbound t2) bs2"
    using conn_write_accepted [of c2 bs2] ne(2) t1(2,3) by (simp_all add: c2_def t2_def t3_def)
  have dn: "d - n \<le> n" using assms(6) by linarith
  have "read_timeout c2 = Some n" using c(2) by (simp add: c2_def)
  then obtain s where s: "conn_parse_reply E tcp_net (c2\<lparr>stream := t3\<rparr>) = (as_result v, c2\<lparr>stream := s\<rparr>)"
    using conn_parse_leftover [of "c2\<lparr>stream := t3\<rparr>" "d - n" v "server t2 (outbound t2) bs2" n E]
      t3(2,3) dn assms(7) by auto
  have r2: "roundtrip E tcp_net args2 c2 = (as_result v, c2\<lparr>stream := s\<rparr>)"
    using t3(1) s assms(2) by (simp add: roundtrip_def append_args_command bs2_def)
  have p1: "\<not> ConnPool.closed p1" "0 < permits p1" "idle p1 = older @ [\<lparr>pc_conn = c2, used_at = clock p\<rparr>]"
    using p(1,2) by (simp_all add: p1_def)
  then obtain p2 where "with_guard tcp_net (roundtrip E tcp_net args2) p1 = (as_result v, p2)"
    using with_guard_last [of p1 older c2 "roundtrip E tcp_net args2" "as_result v"] r2 pc2
    by (auto simp: p1_def)
  then show ?thesis
    using g1 by (simp add: process_cmd_def on_pool_def p_def)
qed

definition slow_peer :: tcp where
  "slow_peer = (sample_tcp [])\<lparr>server := (\<lambda>sent _. [(15, Data (if sent = [] then ''+one'' @ CRLF else ''+two'' @ CRLF))])\<rparr>"

definition slow_client :: "tcp Client" where
  "slow_client = (sample_client slow_peer)\<lparr>client_pool :=
     (client_pool (sample_client slow_peer))\<lparr>opts := (sample_opts 1)\<lparr>opt_read_timeout := Some 10\<rparr>\<rparr>\<rparr>"

theorem late_reply_answers_next_command_witness:
  "\<exists>cl1 cl2. process_cmd sample_env tcp_net [''GET'', ''a''] slow_client = (Err ETimeout, cl1) \<and>
    process_cmd sample_env tcp_net [''GET'', ''b''] cl1 = (Ok (VStatus ''one''), cl2)"
proof -
  have "fits sample_env (VStatus ''one'')"
    using utf8_valid_ascii [of "''one''"] by (simp add: line_text_def MAX_LINE_LEN_def)
  moreover have "serving slow_client slow_peer"
    by (simp add: slow_client_def sample_client_def serving_def Let_def slow_peer_def sample_tcp_def ready_def
        connection_new_def expired_def sample_pool_def pool_new_def sample_opts_def PoolOptions_default_def)
  moreover have "opt_read_timeout (opts (client_pool slow_client)) = Some 10"
    by (simp add: slow_client_def)
  moreover have "server slow_peer (outbound slow_peer) bs = [(15, Data (encode_value (VStatus ''one'')))]" for bs
    by (simp add: slow_peer_def sample_tcp_def)
  ultimately show ?thesis
    using late_reply_answers_next_command [of slow_client slow_peer sample_env 10 "[''GET'', ''a'']" 15
        "VStatus ''one''" "[''GET'', ''b'']"] by simp
qed

section \<open>Commands that are given up\<close>

text \<open>
  C17. No timeout of the crate is needed: a caller who drops the future of a command while it waits for
  the reply (an outer timeout, a \<open>select\<close>) drops the guard, which finds no byte buffered and gives the
  connection back. The next command gets the reply of the one that was given up.
\<close>

theorem abandoned_command_answers_next:
  assumes "served E cl t (resp_command args1) enc" "wire_reply E enc r"
    and "data_only (server t (outbound t @ resp_command args1) (resp_command args2))"
    and "in_time (opt_read_timeout (opts (client_pool cl)))
      (server t (outbound t) (resp_command args1) @ server t (outbound t @ resp_command args1) (resp_command args2))"
  shows "\<exists>c c1 p cl2. pool_get (client_pool cl) = (Ok c, p) \<and>
    conn_write_all tcp_net (resp_command args1) c = (Ok (), c1) \<and>
    process_cmd E tcp_net args2 (cl\<lparr>client_pool := guard_drop tcp_net c1 p\<rparr>) = (r, cl2)"
proof -
  define p where "p = client_pool cl"
  define bs1 bs2 where "bs1 = resp_command args1" and "bs2 = resp_command args2"
  have ne: "bs1 \<noteq> []" "bs2 \<noteq> []" by (simp_all add: bs1_def bs2_def resp_command_def)
  have E: "itoa_decimal E" "answers (opt_read_timeout (opts p)) (server t) (outbound t) bs1 enc"
    using assms(1) by (simp_all add: served_def p_def bs1_def)
  obtain older pc where pc: "\<not> ConnPool.closed p" "0 < permits p" "idle p = older @ [pc]"
    "stream (pc_conn pc) = t" "\<not> expired p pc" "ready t"
    using assms(1) by (auto simp: served_def serving_def Let_def p_def)
  define c where "c = prepare (opts p) (pc_conn pc)"
  have c: "stream c = t" "read_timeout c = opt_read_timeout (opts p)" using pc(4) by (simp_all add: c_def)
  have "usable p = pc # rev older" using pc(3,5) by (simp add: usable_def)
  then have g: "pool_get p = (Ok c, p\<lparr>permits := permits p - 1, idle := older\<rparr>)"
    using pool_get_result [OF pc(1,2)] by (simp add: c_def)
  define c1 where "c1 = c\<lparr>stream := written bs1 t\<rparr>"
  have w1: "conn_write_all tcp_net bs1 c = (Ok (), c1)"
    using conn_write_answers(1) [of c bs1 enc] pc(6) ne(1) E(2) c by (simp add: c1_def)
  have t1: "wplan (stream c1) = []" "deadline (stream c1) = None" "rbuf (stream c1) = []"
    using pc(6) by (simp_all add: c1_def written_def ready_def)
  define t2 where "t2 = (stream c1)\<lparr>outbound := outbound t @ bs1 @ bs2,
    inbound := server t (outbound t) bs1 @ server t (outbound t @ bs1) bs2\<rparr>"
  have w2: "conn_write_all tcp_net bs2 c1 = (Ok (), c1\<lparr>stream := t2\<rparr>)"
    using conn_write_accepted [OF t1(1,2) ne(2)] by (simp add: t2_def c1_def written_def)
  have "steady (read_timeout c1) (outbound t2) (server t) t2"
    using assms(3,4) E(2) t1 c
    by (auto simp: steady_def t2_def c1_def written_def answers_def p_def bs1_def bs2_def)
  moreover have "tcp_backlog t2 = enc @ stream_bytes (server t (outbound t @ bs1) bs2)"
    using E(2) t1(3) stream_bytes_append [of "server t (outbound t) bs1"]
    by (simp add: tcp_backlog_def t2_def answers_def)
  moreover have "deadline t2 = None" using t1(2) by (simp add: t2_def)
  ultimately obtain u where "conn_parse_reply E tcp_net (c1\<lparr>stream := t2\<rparr>) = (r, c1\<lparr>stream := u\<rparr>)"
    using conn_parse_steady [where c = "c1\<lparr>stream := t2\<rparr>" and sent = "outbound t2" and f = "server t"
        and enc = enc and E = E and r = r and rest = "stream_bytes (server t (outbound t @ bs1) bs2)"] assms(2)
    by auto
  then have rt: "roundtrip E tcp_net args2 c1 = (r, c1\<lparr>stream := u\<rparr>)"
    using w2 E(1) by (simp add: roundtrip_def append_args_command bs2_def)
  define q where "q = p\<lparr>idle := older @ [\<lparr>pc_conn = c1, used_at = clock p\<rparr>]\<rparr>"
  have "guard_drop tcp_net c1 (p\<lparr>permits := permits p - 1, idle := older\<rparr>) = q"
    using t1(3) pc(1,2) by (simp add: guard_drop_def pool_put_def buffer_size_def release_def q_def)
  moreover obtain q' where "with_guard tcp_net (roundtrip E tcp_net args2) q = (r, q')"
    using with_guard_last [of q older c1 "roundtrip E tcp_net args2" r] pc(1,2) rt
    by (auto simp: q_def c1_def c_def)
  ultimately show ?thesis
    using g w1 by (intro exI conjI) (auto simp: p_def bs1_def process_cmd_def on_pool_def)
qed

theorem abandoned_command_answers_next_witness:
  "\<exists>c c1 p cl2. pool_get (client_pool (sample_client slow_peer)) = (Ok c, p) \<and>
    conn_write_all tcp_net (resp_command [''GET'', ''a'']) c = (Ok (), c1) \<and>
    process_cmd sample_env tcp_net [''GET'', ''b'']
      ((sample_client slow_peer)\<lparr>client_pool := guard_drop tcp_net c1 p\<rparr>) = (Ok (VStatus ''one''), cl2)"
proof -
  have "fits sample_env (VStatus ''one'')"
    using utf8_valid_ascii [of "''one''"] by (simp add: line_text_def MAX_LINE_LEN_def)
  from wire_reply_value [OF this] have w: "wire_reply sample_env (''+one'' @ CRLF) (Ok (VStatus ''one''))" by simp
  have "served sample_env (sample_client slow_peer) slow_peer (resp_command [''GET'', ''a'']) (''+one'' @ CRLF)"
    by (rule sample_served) (simp_all add: slow_peer_def sample_tcp_def ready_def)
  from abandoned_command_answers_next [OF this w, of "[''GET'', ''b'']"] show ?thesis
    by (simp add: slow_peer_def sample_client_def sample_opts_def PoolOptions_default_def)
qed

section \<open>Messages cut by a timeout\<close>

lemma read_header:
  assumes "rbuf t = []" "inbound t = (0, Data (''*3'' @ CRLF)) # rest" "deadline t = Some n"
  shows "read_line tcp_net t = (Ok ''*3'', t\<lparr>inbound := rest\<rparr>)"
proof -
  have f: "tcp_fill t = (Ok (''*3'' @ CRLF), t\<lparr>rbuf := ''*3'' @ CRLF, inbound := rest\<rparr>)"
    using assms by (simp add: tcp_fill_def BUF_CAPACITY_def)
  have "tcp_consume (Suc (Suc (Suc (Suc 0)))) (t\<lparr>rbuf := ''*3'' @ CRLF, inbound := rest\<rparr>) = t\<lparr>inbound := rest\<rparr>"
    using assms(1) by (cases t) (simp add: tcp_consume_def)
  then show ?thesis
    by (simp add: read_line_def read_line_loop.simps [of tcp_net "[]" t] f MAX_LINE_LEN_def strip_line_def
        ends_with_def)
qed

text \<open>The header of an array arrives in time, its elements do not: the header is lost.\<close>

lemma conn_parse_header_only:
  assumes "rbuf (stream c) = []" "inbound (stream c) = (0, Data (''*3'' @ CRLF)) # (d, Data bs) # rest"
    and "read_timeout c = Some n" "n < d" "can_reserve E 96"
  shows "conn_parse_reply E tcp_net c =
    (Err ETimeout, c\<lparr>stream := (stream c)\<lparr>deadline := None, inbound := (d - n, Data bs) # rest\<rparr>\<rparr>)"
proof -
  define s where "s = (stream c)\<lparr>deadline := Some n\<rparr>"
  define s1 where "s1 = s\<lparr>inbound := (d, Data bs) # rest\<rparr>"
  define u where "u = s1\<lparr>deadline := Some 0, inbound := (d - n, Data bs) # rest\<rparr>"
  have l: "read_line tcp_net s = (Ok ''*3'', s1)"
    using read_header [of s "(d, Data bs) # rest" n] assms(1,2) by (simp add: s_def s1_def)
  have "parse_reply E tcp_net s1 = (Pending, u)"
    using parse_reply_late [of s1 d bs rest n E] assms(1,4) by (simp add: s1_def s_def u_def)
  then have "parse_slice_loop E tcp_net 3 [] s1 = (Pending, u)"
    using tcp_io.parse_slice_loop_Suc [of E 2 "[]" s1] by (simp add: numeral_3_eq_3)
  moreover have "array_length ''3'' = Ok 3"
  proof -
    have "utf8_valid ''3''" using utf8_valid_ascii [of "''3''"] by simp
    moreover have "parse_i64 ''3'' = Some 3" by (simp add: parse_i64_def digit_val_def in_i64_def)
    ultimately show ?thesis by (simp add: array_length_def from_utf8_def)
  qed
  ultimately have "parse_reply E tcp_net s = (Pending, u)"
    using l assms(5)
    by (simp add: tcp_io.parse_reply_eq dispatch_def with_capacity_def size_of_Value_def as_u64_def)
  then show ?thesis
    using assms(3) by (simp add: conn_parse_reply_def io_timeout_def from_elapsed_def s_def s1_def u_def)
qed

text \<open>
  C18. A subscriber with a read timeout loses its place in the stream: when \<open>receive\<close> runs into the
  timeout between the header of a message and its elements, the header is gone with the call that
  was cancelled, and the next \<open>receive\<close> takes the first element, which has arrived by then, for a
  message and fails, although the server has sent one complete and correct message.
\<close>

theorem receive_timeout_loses_header:
  assumes "ps_conn s = Some c" "rbuf (stream c) = []" "read_timeout c = Some n"
    and "inbound (stream c) = [(0, Data (''*3'' @ CRLF)), (d, Data (resp_bulk k @ resp_bulk ch @ resp_bulk pl))]"
    and "n < d" "d \<le> 2 * n" "can_reserve E 96" "fits E (VBulkString k)"
  shows "\<exists>s1 s2. receive E tcp_net s = (Err ETimeout, s1) \<and>
    receive E tcp_net s1 = (Err (EOther ''expected array''), s2)"
proof -
  define rest where "rest = resp_bulk ch @ resp_bulk pl"
  define c1 where "c1 = c\<lparr>stream := (stream c)\<lparr>deadline := None, inbound := [(d - n, Data (resp_bulk k @ rest))]\<rparr>\<rparr>"
  have "conn_parse_reply E tcp_net c = (Err ETimeout, c1)"
    using conn_parse_header_only [of c d "resp_bulk k @ rest" "[]" n E] assms by (simp add: c1_def rest_def)
  then have 1: "receive E tcp_net s = (Err ETimeout, s\<lparr>ps_conn := Some c1\<rparr>)"
    using assms(1) by (simp add: receive_def)
  define u where "u = (stream c1)\<lparr>deadline := Some n\<rparr>"
  have late: "\<not> n < d - n" using assms(6) by simp
  have "tcp_io.covers (length rest) u (encode_value (VBulkString k) @ rest)"
    using assms(2) late by (simp add: tcp_io.covers_def tcp_backlog_def tcp_due_def u_def c1_def)
  from tcp_io.parse_reply_sim [OF parse_encoded [OF assms(8)] _ this]
  obtain t where "parse_reply E tcp_net u = (Ok (VBulkString k), t)" by auto
  then have "\<exists>c2. conn_parse_reply E tcp_net c1 = (Ok (VBulkString k), c2)"
    using assms(3) by (simp add: conn_parse_reply_def io_timeout_def u_def c1_def)
  then show ?thesis
    using 1 by (auto simp: receive_def parse_message_def from_str_def)
qed

theorem receive_timeout_loses_header_witness:
  "\<exists>s1 s2. receive sample_env tcp_net \<lparr>ps_client = slow_client, ps_conn = Some (set_read_timeout (Some 10)
      (connection_new (sample_tcp [(0, Data (''*3'' @ CRLF)),
        (15, Data (resp_bulk ''message'' @ resp_bulk ''news'' @ resp_bulk ''hello''))])))\<rparr> = (Err ETimeout, s1) \<and>
    receive sample_env tcp_net s1 = (Err (EOther ''expected array''), s2)"
  using receive_timeout_loses_header [of "\<lparr>ps_client = slow_client, ps_conn = Some (set_read_timeout (Some 10)
      (connection_new (sample_tcp [(0, Data (''*3'' @ CRLF)),
        (15, Data (resp_bulk ''message'' @ resp_bulk ''news'' @ resp_bulk ''hello''))])))\<rparr>"
      "set_read_timeout (Some 10) (connection_new (sample_tcp [(0, Data (''*3'' @ CRLF)),
        (15, Data (resp_bulk ''message'' @ resp_bulk ''news'' @ resp_bulk ''hello''))]))"
      10 15 "''message''" "''news''" "''hello''" sample_env]
    fits_sample_string [of "''message''"] can_reserve_sample [of 96]
  by (simp add: set_read_timeout_def connection_new_def sample_tcp_def)

end
